theory Spec2Isabelle
  imports Complex_Main "HOL-Library.Word"
begin

section \<open>The pulse-oximeter firmware (NodeMCU-Pulse-Oxymeter.ino)\<close>

text \<open>
  The sketch keeps its whole session in global variables, serves three HTTP routes from
  inside every wait, and runs one measurement per call of \<open>loop()\<close>. The model below
  follows the sketch function by function.

  Conventions of the embedding.
  \<^item> \<open>float\<close> variables are rationals that hold binary32 values. The additions and
    the divisions of \<open>calculateAverages\<close> and its conversion of a counter to
    \<open>float\<close> round the exact result to binary32 (\<open>fl32\<close> below); comparisons and
    the cast to \<open>int\<close> are exact on such values. A reading is stored only when it
    lies between 40 and 220, where the conversion from \<open>int32_t\<close> is exact. Infinities
    and NaN are not modelled: no float of the sketch exceeds 1100.
  \<^item> \<open>int\<close>, \<open>int32_t\<close> and \<open>int8_t\<close> variables are integers: the counters are set to 0
    when a session begins and grow by at most 5, the estimator outputs are only compared.
  \<^item> \<open>unsigned long\<close> and \<open>uint32_t\<close> are 32-bit words, so clock differences wrap.
  \<^item> Everything the sketch reads from outside (pending HTTP requests, the clock, the
    sensor, the outputs of the library estimator) comes from an environment script that
    is an argument of the function that reads it.
  \<^item> Drawing on the OLED and printing on the serial line only produce output; of the
    display functions the model keeps the write to \<open>statusMsg\<close>.
\<close>

subsection \<open>Constants\<close>

definition IR_FINGER_THRESHOLD :: "32 word" where
  "IR_FINGER_THRESHOLD = 50000"

definition TOTAL_SAMPLES :: nat where
  "TOTAL_SAMPLES = 5"

definition sampleCounts :: "nat list" where
  "sampleCounts = [50, 60, 70, 80, 90]"

definition MAX_BUFFER :: nat where
  "MAX_BUFFER = 90"

definition DISPLAY_INTERVAL :: "32 word" where
  "DISPLAY_INTERVAL = 500"

subsection \<open>Global variables\<close>

record globals =
  irBuffer :: "32 word list"
  redBuffer :: "32 word list"
  spo2 :: int
  heartRate :: int
  spo2Valid :: int
  hrValid :: int
  hrReadings :: "rat list"
  spo2Readings :: "rat list"
  validHRCount :: int
  validSpO2Count :: int
  avgHR :: rat
  avgSpO2 :: rat
  running :: bool
  hadFinger :: bool
  cancelRequested :: bool
  statusMsg :: string
  patientName :: string
  lastDisplayMs :: "32 word"

text \<open>The globals as their initialisers leave them (arrays without one are zeroed).\<close>

definition initial :: globals where
  "initial = \<lparr> irBuffer = replicate MAX_BUFFER 0, redBuffer = replicate MAX_BUFFER 0,
     spo2 = 0, heartRate = 0, spo2Valid = 0, hrValid = 0,
     hrReadings = replicate TOTAL_SAMPLES 0, spo2Readings = replicate TOTAL_SAMPLES 0,
     validHRCount = 0, validSpO2Count = 0, avgHR = 0, avgSpO2 = 0,
     running = False, hadFinger = False, cancelRequested = False,
     statusMsg = ''Ready'', patientName = [], lastDisplayMs = 0 \<rparr>"

subsection \<open>Text helpers\<close>

text \<open>\<open>snprintf\<close> and \<open>strlcpy\<close> into a \<open>char[32]\<close> keep at most 31 characters.\<close>

definition fit32 :: "string \<Rightarrow> string" where
  "fit32 str = take 31 str"

fun dec_nat :: "nat \<Rightarrow> string" where
  "dec_nat n = (if n < 10 then [''0123456789'' ! n]
                else dec_nat (n div 10) @ [''0123456789'' ! (n mod 10)])"

declare dec_nat.simps [simp del]

definition dec_int :: "int \<Rightarrow> string" where
  "dec_int i = (if i < 0 then CHR ''-'' # dec_nat (nat (- i)) else dec_nat (nat i))"

text \<open>The cast \<open>(int)f\<close> of a float drops the fraction.\<close>

definition to_int :: "rat \<Rightarrow> int" where
  "to_int q = (if 0 \<le> q then \<lfloor>q\<rfloor> else \<lceil>q\<rceil>)"

subsection \<open>Binary32 arithmetic\<close>

text \<open>The number of binary digits of a natural number.\<close>

fun bitlen :: "nat \<Rightarrow> nat" where
  "bitlen n = (if n = 0 then 0 else Suc (bitlen (n div 2)))"

declare bitlen.simps [simp del]

definition pow2 :: "int \<Rightarrow> rat" where
  "pow2 e = (if 0 \<le> e then 2 ^ nat e else 1 / 2 ^ nat (- e))"

text \<open>The binary exponent of a positive rational \<open>a\<close>: \<open>2 ^ e \<le> a < 2 ^ (e + 1)\<close>.\<close>

definition ilog2 :: "rat \<Rightarrow> int" where
  "ilog2 a = (if 1 \<le> a then int (bitlen (nat \<lfloor>a\<rfloor>)) - 1
              else - int (bitlen (nat (\<lceil>1 / a\<rceil> - 1))))"

text \<open>Rounding to the nearest integer, a tie to the even one.\<close>

definition round_even :: "rat \<Rightarrow> int" where
  "round_even x =
     (let f = \<lfloor>x\<rfloor>; d = x - of_int f
      in if d < 1 / 2 then f else if 1 / 2 < d then f + 1 else if even f then f else f + 1)"

text \<open>
  The binary32 value nearest to a rational (IEEE 754 round to nearest, ties to even): 24
  significant bits, the exponent not below that of the subnormal numbers.
\<close>

definition fl32 :: "rat \<Rightarrow> rat" where
  "fl32 q =
     (if q = 0 then 0
      else let a = \<bar>q\<bar>; e = max (ilog2 a) (- 126); u = pow2 (e - 23)
           in sgn q * of_int (round_even (a / u)) * u)"

subsection \<open>Requests and responses\<close>

text \<open>
  The body of a request, as \<open>deserializeJson\<close> of the ArduinoJson library reads it:
  either it fails, or it yields a document whose \<open>name\<close> member is missing, is a
  string, or is something else.
\<close>

datatype name_member = NoName | NameText string | NameOther

datatype body = Malformed | Doc name_member

datatype http_method = GET | POST | OPTIONS | OTHER

record request =
  rq_method :: http_method
  rq_path :: string
  rq_plain :: "body option"

record response =
  rs_cors :: bool
  rs_code :: nat
  rs_type :: string
  rs_body :: string

datatype jvalue = JInt int | JBool bool | JStr string

fun render_value :: "jvalue \<Rightarrow> string" where
  "render_value (JInt i) = dec_int i"
| "render_value (JBool b) = (if b then ''true'' else ''false'')"
| "render_value (JStr t) = [CHR 0x22] @ t @ [CHR 0x22]"

fun render_fields :: "(string \<times> jvalue) list \<Rightarrow> string" where
  "render_fields [] = []"
| "render_fields [(k, v)] = [CHR 0x22] @ k @ [CHR 0x22] @ '':'' @ render_value v"
| "render_fields ((k, v) # kvs) =
     [CHR 0x22] @ k @ [CHR 0x22] @ '':'' @ render_value v @ '','' @ render_fields kvs"

definition render_json :: "(string \<times> jvalue) list \<Rightarrow> string" where
  "render_json kvs = ''{'' @ render_fields kvs @ ''}''"

definition ok_reply :: response where
  "ok_reply = \<lparr> rs_cors = True, rs_code = 200, rs_type = ''application/json'',
                rs_body = render_json [(''ok'', JBool True)] \<rparr>"

subsection \<open>Web server handlers\<close>

definition handleOptions :: "globals \<Rightarrow> response \<times> globals" where
  "handleOptions s = (\<lparr> rs_cors = True, rs_code = 204, rs_type = [], rs_body = [] \<rparr>, s)"

text \<open>The label \<open>handleStart\<close> leaves in \<open>patientName\<close> (lines 93 to 100).\<close>

definition start_name :: "body option \<Rightarrow> string" where
  "start_name plain =
     (case plain of
        None \<Rightarrow> []
      | Some Malformed \<Rightarrow> []
      | Some (Doc NoName) \<Rightarrow> []
      | Some (Doc (NameText t)) \<Rightarrow> fit32 t
      | Some (Doc NameOther) \<Rightarrow> fit32 [])"

definition handleStart :: "body option \<Rightarrow> globals \<Rightarrow> response \<times> globals" where
  "handleStart plain s =
     (if \<not> running s then
        (ok_reply,
         s\<lparr> patientName := start_name plain,
            running := True,
            hadFinger := False,
            cancelRequested := False,
            validHRCount := 0,
            validSpO2Count := 0,
            avgHR := 0,
            avgSpO2 := 0,
            hrReadings := replicate TOTAL_SAMPLES 0,
            spo2Readings := replicate TOTAL_SAMPLES 0,
            statusMsg := fit32 ''Starting...'' \<rparr>)
      else (ok_reply, s))"

definition handleCancel :: "globals \<Rightarrow> response \<times> globals" where
  "handleCancel s = (ok_reply, s\<lparr> cancelRequested := True \<rparr>)"

text \<open>The last branch of \<open>handleJSON\<close>'s status (lines 136 to 138).\<close>

definition json_classify :: "rat \<Rightarrow> rat \<Rightarrow> string" where
  "json_classify hr sp =
     (if sp \<ge> 95 \<and> hr \<ge> 60 \<and> hr \<le> 100 then ''Normal''
      else if sp \<ge> 90 then ''Warning''
      else ''Critical'')"

text \<open>The local \<open>status\<close> of \<open>handleJSON\<close> (lines 130 to 139).\<close>

definition json_status :: "globals \<Rightarrow> string" where
  "json_status s =
     (if \<not> running s \<and> avgHR s = 0 \<and> avgSpO2 s = 0 then ''idle''
      else if running s then ''measuring''
      else json_classify (avgHR s) (avgSpO2 s))"

text \<open>The members \<open>handleJSON\<close> writes, in its order (lines 141 to 149).\<close>

definition json_fields :: "globals \<Rightarrow> (string \<times> jvalue) list" where
  "json_fields s =
     [(''heartRate'', JInt (to_int (avgHR s))),
      (''spo2'', JInt (to_int (avgSpO2 s))),
      (''hrValid'', JInt (validHRCount s)),
      (''spo2Valid'', JInt (validSpO2Count s)),
      (''totalSamples'', JInt (int TOTAL_SAMPLES)),
      (''running'', JBool (running s)),
      (''status'', JStr (json_status s))]"

definition handleJSON :: "globals \<Rightarrow> response \<times> globals" where
  "handleJSON s =
     (\<lparr> rs_cors = True, rs_code = 200, rs_type = ''application/json'',
        rs_body = render_json (json_fields s) \<rparr>, s)"

text \<open>The catch-all of \<open>setup()\<close> (lines 419 to 426).\<close>

definition notFound :: "http_method \<Rightarrow> globals \<Rightarrow> response \<times> globals" where
  "notFound m s =
     (if m = OPTIONS then (\<lparr> rs_cors = True, rs_code = 204, rs_type = [], rs_body = [] \<rparr>, s)
      else (\<lparr> rs_cors = False, rs_code = 404, rs_type = ''text/plain'',
              rs_body = ''Not found'' \<rparr>, s))"

text \<open>The routes registered in \<open>setup()\<close> (lines 411 to 416).\<close>

definition dispatch :: "request \<Rightarrow> globals \<Rightarrow> response \<times> globals" where
  "dispatch q s =
     (if rq_path q = ''/start'' \<and> rq_method q = POST then handleStart (rq_plain q) s
      else if rq_path q = ''/cancel'' \<and> rq_method q = POST then handleCancel s
      else if rq_path q = ''/data'' \<and> rq_method q = GET then handleJSON s
      else if rq_path q = ''/start'' \<and> rq_method q = OPTIONS then handleOptions s
      else if rq_path q = ''/cancel'' \<and> rq_method q = OPTIONS then handleOptions s
      else if rq_path q = ''/data'' \<and> rq_method q = OPTIONS then handleOptions s
      else notFound (rq_method q) s)"

text \<open>
  One call of \<open>server.handleClient()\<close>: the pending request, if there is one, is
  dispatched; its reply goes to the network.
\<close>

definition handleClient :: "request option \<Rightarrow> globals \<Rightarrow> globals" where
  "handleClient pending s = (case pending of None \<Rightarrow> s | Some q \<Rightarrow> snd (dispatch q s))"

subsection \<open>Display throttle and screens\<close>

text \<open>\<open>shouldRedisplay\<close> with the value \<open>millis()\<close> returns (lines 62 to 69).\<close>

definition shouldRedisplay :: "32 word \<Rightarrow> globals \<Rightarrow> bool \<times> globals" where
  "shouldRedisplay now s =
     (if now - lastDisplayMs s \<ge> DISPLAY_INTERVAL then (True, s\<lparr> lastDisplayMs := now \<rparr>)
      else (False, s))"

definition displayIdle :: "globals \<Rightarrow> globals" where
  "displayIdle s = s\<lparr> statusMsg := fit32 ''Idle'' \<rparr>"

definition displayGreeting :: "globals \<Rightarrow> globals" where
  "displayGreeting s = s\<lparr> statusMsg := fit32 ''Ready'' \<rparr>"

definition displayNoFinger :: "globals \<Rightarrow> globals" where
  "displayNoFinger s = s\<lparr> statusMsg := fit32 ''No finger'' \<rparr>"

definition displaySampling :: "nat \<Rightarrow> nat \<Rightarrow> globals \<Rightarrow> globals" where
  "displaySampling current tot s =
     s\<lparr> statusMsg := fit32 (''Sample '' @ dec_nat current @ '' of '' @ dec_nat tot) \<rparr>"

text \<open>\<open>displayResults\<close> computes its own label (lines 243 to 246).\<close>

definition statusLabel :: "rat \<Rightarrow> rat \<Rightarrow> string" where
  "statusLabel hr sp =
     (if sp \<ge> 95 \<and> hr \<ge> 60 \<and> hr \<le> 100 then ''Normal''
      else if sp \<ge> 90 then ''Warning''
      else ''Critical'')"

definition displayResults :: "globals \<Rightarrow> globals" where
  "displayResults s = s\<lparr> statusMsg := fit32 (statusLabel (avgHR s) (avgSpO2 s)) \<rparr>"

subsection \<open>Sensor helpers\<close>

text \<open>\<open>fingerPresent\<close> with the value \<open>sensor.getIR()\<close> returns.\<close>

definition fingerPresent :: "32 word \<Rightarrow> bool" where
  "fingerPresent ir = (ir > IR_FINGER_THRESHOLD)"

definition resetMeasurement :: "globals \<Rightarrow> globals" where
  "resetMeasurement s =
     s\<lparr> running := False,
        hadFinger := False,
        cancelRequested := False,
        validHRCount := 0,
        validSpO2Count := 0,
        patientName := [],
        statusMsg := fit32 ''Cancelled'' \<rparr>"

subsection \<open>Timed waits\<close>

text \<open>
  A wait that ends when the clock says so runs its body some number of times. Its script
  lists what \<open>server.handleClient()\<close> finds pending in each of these iterations.
\<close>

fun yieldFor :: "request option list \<Rightarrow> globals \<Rightarrow> globals" where
  "yieldFor [] s = s"
| "yieldFor (r # rs) s = yieldFor rs (handleClient r s)"

text \<open>One second of the countdown (lines 311 to 317).\<close>

fun countdown_second :: "request option list \<Rightarrow> globals \<Rightarrow> bool \<times> globals" where
  "countdown_second [] s = (True, s)"
| "countdown_second (r # rs) s =
     (let s' = handleClient r s
      in if cancelRequested s' then (False, s') else countdown_second rs s')"

text \<open>
  \<open>interruptibleCountdown\<close>: the first argument is the loop variable \<open>i\<close>, the script
  has one list per second still to run.
\<close>

fun interruptibleCountdown :: "nat \<Rightarrow> request option list list \<Rightarrow> globals \<Rightarrow> bool \<times> globals" where
  "interruptibleCountdown 0 script s = (True, s)"
| "interruptibleCountdown (Suc i) script s =
     (let s1 = s\<lparr> statusMsg := fit32 (''Starting in '' @ dec_nat (Suc i) @ ''s'') \<rparr>
      in case countdown_second (case script of [] \<Rightarrow> [] | sec # _ \<Rightarrow> sec) s1 of
           (False, s2) \<Rightarrow> (False, s2)
         | (True, s2) \<Rightarrow> interruptibleCountdown i (tl script) s2)"

subsection \<open>One stage\<close>

text \<open>
  A function of the sketch either returns or does not: the wait for a raw sample has no
  bound, and an index outside \<open>sampleCounts\<close> has no defined value.
\<close>

datatype stop = SensorStall | IndexOutOfBounds

text \<open>
  One iteration of the wait for a sample in which the sensor has nothing yet: the request
  found pending, and the infrared level at that moment (the wait does not read it).
\<close>

record poll =
  p_req :: "request option"
  p_ir :: "32 word"

text \<open>
  The script of one sample slot: the request pending at line 326, the infrared level read
  at line 328, the iterations of the wait, whether a sample arrives after them (if not,
  the sensor stays silent and no further cancel request is served), and the sample.
\<close>

record sample_env =
  m_req :: "request option"
  m_ir :: "32 word"
  m_polls :: "poll list"
  m_arrives :: bool
  m_red :: "32 word"
  m_irv :: "32 word"

text \<open>What \<open>maxim_heart_rate_and_oxygen_saturation\<close> writes through its four pointers.\<close>

record estimate =
  e_spo2 :: int
  e_spo2Valid :: int
  e_heartRate :: int
  e_hrValid :: int

record stage_env =
  g_pre :: "request option"
  g_sample :: "nat \<Rightarrow> sample_env"
  g_est :: estimate
  g_post :: "request option"
  g_pause :: "request option list"

text \<open>The inner \<open>while (!sensor.available())\<close> (lines 329 to 334).\<close>

fun await_sample :: "poll list \<Rightarrow> bool \<Rightarrow> globals \<Rightarrow> stop + (bool \<times> globals)" where
  "await_sample [] arrives s = (if arrives then Inr (True, s) else Inl SensorStall)"
| "await_sample (p # ps) arrives s =
     (let s' = handleClient (p_req p) s
      in if cancelRequested s' then Inr (False, s') else await_sample ps arrives s')"

text \<open>The \<open>for\<close> loop over the window (lines 325 to 338), from index \<open>i\<close>.\<close>

function collect :: "nat \<Rightarrow> nat \<Rightarrow> (nat \<Rightarrow> sample_env) \<Rightarrow> globals \<Rightarrow> stop + (bool \<times> globals)" where
  "collect i n env s =
     (if i < n then
        (let s1 = handleClient (m_req (env i)) s
         in if cancelRequested s1 \<or> \<not> fingerPresent (m_ir (env i)) then Inr (False, s1)
            else case await_sample (m_polls (env i)) (m_arrives (env i)) s1 of
                   Inl e \<Rightarrow> Inl e
                 | Inr (False, s2) \<Rightarrow> Inr (False, s2)
                 | Inr (True, s2) \<Rightarrow>
                     collect (Suc i) n env
                       (s2\<lparr> redBuffer := (redBuffer s2)[i := m_red (env i)],
                           irBuffer := (irBuffer s2)[i := m_irv (env i)] \<rparr>))
      else Inr (True, s))"
  by pat_completeness auto
termination
  by (relation "measure (\<lambda>(i, n, env, s). n - i)") auto

declare collect.simps [simp del]

text \<open>The estimator call and the two plausibility filters (lines 340 to 361).\<close>

definition store_reading :: "nat \<Rightarrow> estimate \<Rightarrow> globals \<Rightarrow> globals" where
  "store_reading idx e s =
     (let s1 = s\<lparr> spo2 := e_spo2 e, spo2Valid := e_spo2Valid e,
                  heartRate := e_heartRate e, hrValid := e_hrValid e \<rparr>;
          s2 = (if hrValid s1 \<noteq> 0 \<and> heartRate s1 \<ge> 40 \<and> heartRate s1 \<le> 220
                then s1\<lparr> hrReadings := (hrReadings s1)[idx := of_int (heartRate s1)],
                         validHRCount := validHRCount s1 + 1 \<rparr>
                else s1\<lparr> hrReadings := (hrReadings s1)[idx := 0] \<rparr>)
      in if spo2Valid s2 \<noteq> 0 \<and> spo2 s2 \<ge> 80 \<and> spo2 s2 \<le> 100
         then s2\<lparr> spo2Readings := (spo2Readings s2)[idx := of_int (spo2 s2)],
                  validSpO2Count := validSpO2Count s2 + 1 \<rparr>
         else s2\<lparr> spo2Readings := (spo2Readings s2)[idx := 0] \<rparr>)"

definition takeSingleReading :: "nat \<Rightarrow> stage_env \<Rightarrow> globals \<Rightarrow> stop + (bool \<times> globals)" where
  "takeSingleReading idx env s =
     (if idx < length sampleCounts then
        (case collect 0 (sampleCounts ! idx) (g_sample env) s of
           Inl e \<Rightarrow> Inl e
         | Inr (False, s1) \<Rightarrow> Inr (False, s1)
         | Inr (True, s1) \<Rightarrow> Inr (True, store_reading idx (g_est env) s1))
      else Inl IndexOutOfBounds)"

text \<open>
  \<open>calculateAverages\<close>: the two sums of the loop, then the two divisions. Every
  \<open>+=\<close> is a float addition; the counter is converted to \<open>float\<close> and the
  division is a float division.
\<close>

definition sum_positive :: "rat list \<Rightarrow> rat" where
  "sum_positive readings =
     fold (\<lambda>i acc. if readings ! i > 0 then fl32 (acc + readings ! i) else acc)
       [0..<TOTAL_SAMPLES] 0"

definition calculateAverages :: "globals \<Rightarrow> globals" where
  "calculateAverages s =
     (let sumHR = sum_positive (hrReadings s);
          sumSpO2 = sum_positive (spo2Readings s)
      in s\<lparr> avgHR := (if validHRCount s > 0
                       then fl32 (sumHR / fl32 (of_int (validHRCount s))) else 0),
            avgSpO2 := (if validSpO2Count s > 0
                        then fl32 (sumSpO2 / fl32 (of_int (validSpO2Count s))) else 0) \<rparr>)"

subsection \<open>The main loop\<close>

text \<open>
  The script of one call of \<open>loop()\<close>: the request pending at line 462, the clock read
  by \<open>shouldRedisplay\<close>, the infrared level of line 477, the request pending at line
  480, the iterations of the greeting dwell, of the countdown, the five stages, and the
  iterations of the result hold.
\<close>

record tick_env =
  t_req :: "request option"
  t_now :: "32 word"
  t_ir :: "32 word"
  t_req_nf :: "request option"
  t_greet :: "request option list"
  t_count :: "request option list list"
  t_stage :: "nat \<Rightarrow> stage_env"
  t_hold :: "request option list"

datatype tick_end =
    IdleTick
  | CancelledAtEntry
  | NoFinger
  | CancelledInCountdown
  | AbortedInStage nat
  | Completed

text \<open>
  The \<open>for\<close> loop over the stages (lines 496 to 508), from stage \<open>i\<close>. It yields the
  stage that was interrupted (the session is then reset), or nothing when all stages ran.
\<close>

function sampling :: "nat \<Rightarrow> (nat \<Rightarrow> stage_env) \<Rightarrow> globals \<Rightarrow> stop + (nat option \<times> globals)" where
  "sampling i env s =
     (if i < TOTAL_SAMPLES then
        (let s1 = displaySampling (i + 1) TOTAL_SAMPLES s;
             s2 = handleClient (g_pre (env i)) s1
         in case takeSingleReading i (env i) s2 of
              Inl e \<Rightarrow> Inl e
            | Inr (False, s3) \<Rightarrow> Inr (Some i, displayIdle (resetMeasurement s3))
            | Inr (True, s3) \<Rightarrow>
                sampling (Suc i) env (yieldFor (g_pause (env i)) (handleClient (g_post (env i)) s3)))
      else Inr (None, s))"
  by pat_completeness auto
termination
  by (relation "measure (\<lambda>(i, env, s). TOTAL_SAMPLES - i)") auto

declare sampling.simps [simp del]

text \<open>
  The greeting and the countdown when the finger is new (lines 485 to 489); the flag
  says whether the countdown ran to its end.
\<close>

definition greeting :: "tick_env \<Rightarrow> globals \<Rightarrow> bool \<times> globals" where
  "greeting env s =
     (if \<not> hadFinger s
      then interruptibleCountdown 3 (t_count env)
             (yieldFor (t_greet env) (displayGreeting (s\<lparr> hadFinger := True \<rparr>)))
      else (True, s))"

text \<open>
  \<open>loop()\<close> up to the end of the stages (lines 462 to 508): either the call returns
  early, or control reaches line 510.
\<close>

definition loop_measure :: "tick_env \<Rightarrow> globals \<Rightarrow> stop + (tick_end option \<times> globals)" where
  "loop_measure env s =
     (let s1 = handleClient (t_req env) s
      in if \<not> running s1 then
           (case shouldRedisplay (t_now env) s1 of
              (True, s2) \<Rightarrow> Inr (Some IdleTick, displayIdle s2)
            | (False, s2) \<Rightarrow> Inr (Some IdleTick, s2))
         else if cancelRequested s1 then
           Inr (Some CancelledAtEntry, displayIdle (resetMeasurement s1))
         else if \<not> fingerPresent (t_ir env) then
           (let s2 = s1\<lparr> hadFinger := False \<rparr>;
                s3 = (case shouldRedisplay (t_now env) s2 of
                        (True, s') \<Rightarrow> displayNoFinger s'
                      | (False, s') \<Rightarrow> s')
            in Inr (Some NoFinger, handleClient (t_req_nf env) s3))
         else
           (case greeting env s1 of
              (False, s2) \<Rightarrow> Inr (Some CancelledInCountdown, displayIdle (resetMeasurement s2))
            | (True, s2) \<Rightarrow>
                (case sampling 0 (t_stage env) s2 of
                   Inl e \<Rightarrow> Inl e
                 | Inr (Some i, s3) \<Rightarrow> Inr (Some (AbortedInStage i), s3)
                 | Inr (None, s3) \<Rightarrow> Inr (None, s3))))"

text \<open>The rest of \<open>loop()\<close> (lines 510 to 523).\<close>

definition loop_finish :: "request option list \<Rightarrow> globals \<Rightarrow> globals" where
  "loop_finish hold s =
     (let s1 = calculateAverages s;
          s2 = displayResults (s1\<lparr> running := False \<rparr>);
          s3 = yieldFor hold s2
      in displayIdle (s3\<lparr> patientName := [] \<rparr>))"

definition loop :: "tick_env \<Rightarrow> globals \<Rightarrow> stop + (tick_end \<times> globals)" where
  "loop env s =
     (case loop_measure env s of
        Inl e \<Rightarrow> Inl e
      | Inr (Some e, s') \<Rightarrow> Inr (e, s')
      | Inr (None, s') \<Rightarrow> Inr (Completed, loop_finish (t_hold env) s'))"

text \<open>
  The globals when \<open>loop()\<close> is first called: the start-up function, once WiFi and
  sensor have come up, ends on the idle screen.
\<close>

definition boot :: globals where
  "boot = displayIdle (initial\<lparr> statusMsg := fit32 ''Init sensor...'' \<rparr>)"

subsection \<open>Runs of the device\<close>

text \<open>The globals at the start of any call of \<open>loop()\<close> after power-up.\<close>

inductive reachable :: "globals \<Rightarrow> bool" where
  at_boot: "reachable boot"
| after_tick: "reachable s \<Longrightarrow> loop env s = Inr (e, s') \<Longrightarrow> reachable s'"

text \<open>The same, as long as no call of \<open>loop()\<close> has run a session to its end.\<close>

inductive never_completed :: "globals \<Rightarrow> bool" where
  fresh_boot: "never_completed boot"
| uncompleted_tick:
    "never_completed s \<Longrightarrow> loop env s = Inr (e, s') \<Longrightarrow> e \<noteq> Completed \<Longrightarrow> never_completed s'"

subsection \<open>Notions the properties are stated with\<close>

text \<open>The two plausibility filters, as conditions on what the estimator returned.\<close>

definition hr_accepted :: "estimate \<Rightarrow> bool" where
  "hr_accepted e = (e_hrValid e \<noteq> 0 \<and> 40 \<le> e_heartRate e \<and> e_heartRate e \<le> 220)"

definition spo2_accepted :: "estimate \<Rightarrow> bool" where
  "spo2_accepted e = (e_spo2Valid e \<noteq> 0 \<and> 80 \<le> e_spo2 e \<and> e_spo2 e \<le> 100)"

text \<open>The accepted results of the five stages of a run, in stage order.\<close>

definition accepted_hrs :: "(nat \<Rightarrow> stage_env) \<Rightarrow> rat list" where
  "accepted_hrs env =
     map (\<lambda>i. of_int (e_heartRate (g_est (env i))))
       (filter (\<lambda>i. hr_accepted (g_est (env i))) [0..<TOTAL_SAMPLES])"

definition accepted_spo2s :: "(nat \<Rightarrow> stage_env) \<Rightarrow> rat list" where
  "accepted_spo2s env =
     map (\<lambda>i. of_int (e_spo2 (g_est (env i))))
       (filter (\<lambda>i. spo2_accepted (g_est (env i))) [0..<TOTAL_SAMPLES])"

definition mean :: "rat list \<Rightarrow> rat" where
  "mean xs = sum_list xs / of_nat (length xs)"

text \<open>What the readings and counters hold when stages \<open>0\<close> to \<open>i - 1\<close> of a run are done.\<close>

definition stages_done :: "(nat \<Rightarrow> stage_env) \<Rightarrow> nat \<Rightarrow> globals \<Rightarrow> bool" where
  "stages_done env i s =
     (running s
      \<and> hrReadings s =
          map (\<lambda>j. if j < i \<and> hr_accepted (g_est (env j))
                    then of_int (e_heartRate (g_est (env j))) else 0) [0..<TOTAL_SAMPLES]
      \<and> spo2Readings s =
          map (\<lambda>j. if j < i \<and> spo2_accepted (g_est (env j))
                    then of_int (e_spo2 (g_est (env j))) else 0) [0..<TOTAL_SAMPLES]
      \<and> validHRCount s = int (length (filter (\<lambda>j. hr_accepted (g_est (env j))) [0..<i]))
      \<and> validSpO2Count s = int (length (filter (\<lambda>j. spo2_accepted (g_est (env j))) [0..<i])))"

text \<open>Between calls of \<open>loop()\<close> a running session has not taken a reading yet.\<close>

definition tick_invariant :: "globals \<Rightarrow> bool" where
  "tick_invariant s =
     (length (hrReadings s) = TOTAL_SAMPLES \<and> length (spo2Readings s) = TOTAL_SAMPLES
      \<and> (\<not> running s \<or>
           (hrReadings s = replicate TOTAL_SAMPLES 0 \<and> spo2Readings s = replicate TOTAL_SAMPLES 0
            \<and> validHRCount s = 0 \<and> validSpO2Count s = 0)))"

subsection \<open>Concrete scripts\<close>

definition start_request :: request where
  "start_request =
     \<lparr> rq_method = POST, rq_path = ''/start'', rq_plain = Some (Doc (NameText ''Ann'')) \<rparr>"

definition cancel_request :: request where
  "cancel_request = \<lparr> rq_method = POST, rq_path = ''/cancel'', rq_plain = None \<rparr>"

text \<open>A sample slot in which nothing happens: finger on, the sample is there at once.\<close>

definition quiet_sample :: sample_env where
  "quiet_sample = \<lparr> m_req = None, m_ir = 60000, m_polls = [], m_arrives = True,
                     m_red = 0, m_irv = 60000 \<rparr>"

text \<open>A stage of quiet samples with the given estimate and a one-iteration pause.\<close>

definition quiet_stage :: "estimate \<Rightarrow> request option \<Rightarrow> stage_env" where
  "quiet_stage e pause = \<lparr> g_pre = None, g_sample = (\<lambda>k. quiet_sample), g_est = e,
                            g_post = None, g_pause = [pause] \<rparr>"

text \<open>
  A call of \<open>loop()\<close> that serves a Begin request first, finds the finger on the sensor,
  and runs the given stages.
\<close>

definition session_tick :: "(nat \<Rightarrow> stage_env) \<Rightarrow> tick_env" where
  "session_tick stages =
     \<lparr> t_req = Some start_request, t_now = 1000, t_ir = 60000, t_req_nf = None,
       t_greet = [None], t_count = [[None], [None], [None]], t_stage = stages,
       t_hold = [None] \<rparr>"

text \<open>A call of \<open>loop()\<close> while idle, with the given pending request.\<close>

definition idle_tick :: "request option \<Rightarrow> 32 word \<Rightarrow> tick_env" where
  "idle_tick pending now =
     \<lparr> t_req = pending, t_now = now, t_ir = 0, t_req_nf = None, t_greet = [], t_count = [],
       t_stage = (\<lambda>i. quiet_stage \<lparr> e_spo2 = 0, e_spo2Valid = 0, e_heartRate = 0, e_hrValid = 0 \<rparr> None),
       t_hold = [] \<rparr>"

definition est :: "int \<Rightarrow> int \<Rightarrow> estimate" where
  "est hr sp = \<lparr> e_spo2 = sp, e_spo2Valid = 1, e_heartRate = hr, e_hrValid = 1 \<rparr>"

definition no_est :: estimate where
  "no_est = \<lparr> e_spo2 = - 999, e_spo2Valid = 0, e_heartRate = - 999, e_hrValid = 0 \<rparr>"

text \<open>Five stages of which the second yields nothing and two yield one metric each.\<close>

definition mixed_stages :: "nat \<Rightarrow> stage_env" where
  "mixed_stages i =
     quiet_stage ([est 72 98, no_est, est 74 97, est 75 70, est 300 99] ! i) None"

text \<open>Five stages with heart rates 72, 73, 73, 72, 73.\<close>

definition uneven_stages :: "nat \<Rightarrow> stage_env" where
  "uneven_stages i =
     quiet_stage ([est 72 98, est 73 98, est 73 98, est 72 98, est 73 98] ! i) None"

text \<open>Five good stages; a Cancel request is pending in the pause after the last one.\<close>

definition late_cancel_stages :: "nat \<Rightarrow> stage_env" where
  "late_cancel_stages i =
     quiet_stage (est 72 98) (if i = 4 then Some cancel_request else None)"

text \<open>A session of five good stages; a Cancel request is pending in the result hold.\<close>

definition hold_cancel_tick :: tick_env where
  "hold_cancel_tick =
     (session_tick (\<lambda>i. quiet_stage (est 72 98) None))\<lparr> t_hold := [Some cancel_request] \<rparr>"

text \<open>
  A stage in which the finger is off the sensor during the one iteration the last
  sample of the window makes the sketch wait.
\<close>

definition slipping_stage :: stage_env where
  "slipping_stage =
     \<lparr> g_pre = None,
       g_sample = (\<lambda>k. if k = 49 then quiet_sample\<lparr> m_polls := [\<lparr> p_req = None, p_ir = 0 \<rparr>] \<rparr>
                         else quiet_sample),
       g_est = est 72 98, g_post = None, g_pause = [None] \<rparr>"

text \<open>
  A stage in which the third sample keeps the sketch waiting for two iterations, and a
  Cancel request is pending in the second.
\<close>

definition cancelled_stage :: stage_env where
  "cancelled_stage =
     \<lparr> g_pre = None,
       g_sample = (\<lambda>k. if k = 2
                         then quiet_sample\<lparr> m_polls := [\<lparr> p_req = None, p_ir = 60000 \<rparr>,
                                                       \<lparr> p_req = Some cancel_request, p_ir = 60000 \<rparr>] \<rparr>
                         else quiet_sample),
       g_est = est 72 98, g_post = None, g_pause = [None] \<rparr>"

text \<open>A stage in which the finger is off the sensor when the last sample slot begins.\<close>

definition lifted_stage :: stage_env where
  "lifted_stage =
     \<lparr> g_pre = None,
       g_sample = (\<lambda>k. if k = 49 then quiet_sample\<lparr> m_ir := 0 \<rparr> else quiet_sample),
       g_est = est 72 98, g_post = None, g_pause = [None] \<rparr>"

text \<open>The globals of a session that has just begun.\<close>

definition begun :: globals where
  "begun = snd (handleStart None boot)"

section \<open>Lemmas about the loops\<close>

text \<open>
  What a served request can do to the globals, and how a property that every served
  request preserves is carried through the waits, the window and the stages.
\<close>

lemma dispatch_cases:
  "dispatch q s = handleStart (rq_plain q) s \<or> dispatch q s = handleCancel s \<or> snd (dispatch q s) = s"
  by (simp add: dispatch_def handleJSON_def handleOptions_def notFound_def)

lemma handleClient_cases:
  "handleClient r s = s \<or> handleClient r s = s\<lparr> cancelRequested := True \<rparr>
     \<or> (\<not> running s \<and> (\<exists>plain. handleClient r s = snd (handleStart plain s)))"
proof (cases r)
  case None
  then show ?thesis by (simp add: handleClient_def)
next
  case (Some q)
  have hs: "running s \<Longrightarrow> snd (handleStart (rq_plain q) s) = s"
    by (simp add: handleStart_def)
  from dispatch_cases [of q s] Some show ?thesis
    unfolding handleClient_def using hs
    by (auto simp add: handleCancel_def)
qed

lemma handleClient_running:
  "running s \<Longrightarrow> handleClient r s = s \<or> handleClient r s = s\<lparr> cancelRequested := True \<rparr>"
  using handleClient_cases [of r s] by blast

lemma handleClient_keeps_running: "running s \<Longrightarrow> running (handleClient r s)"
  using handleClient_running [of s r] by auto

lemma yieldFor_invariant:
  assumes step: "\<And>r s. P s \<Longrightarrow> P (handleClient r s)"
  shows "P s \<Longrightarrow> P (yieldFor rs s)"
  by (induction rs arbitrary: s) (simp_all add: step)

lemma countdown_second_invariant:
  assumes step: "\<And>r s. P s \<Longrightarrow> P (handleClient r s)"
  shows "P s \<Longrightarrow> P (snd (countdown_second rs s))"
  by (induction rs arbitrary: s) (simp_all add: step Let_def)

lemma interruptibleCountdown_invariant:
  assumes step: "\<And>r s. P s \<Longrightarrow> P (handleClient r s)"
    and msg: "\<And>s m. P s \<Longrightarrow> P (s\<lparr> statusMsg := m \<rparr>)"
  shows "P s \<Longrightarrow> P (snd (interruptibleCountdown i script s))"
proof (induction i arbitrary: script s)
  case 0
  then show ?case by simp
next
  case (Suc i)
  let ?s1 = "s\<lparr> statusMsg := fit32 (''Starting in '' @ dec_nat (Suc i) @ ''s'') \<rparr>"
  let ?sec = "case script of [] \<Rightarrow> [] | sec # _ \<Rightarrow> sec"
  have p2: "P (snd (countdown_second ?sec ?s1))"
    using countdown_second_invariant [of P, OF step] msg [OF Suc.prems] by blast
  obtain b s2 where r: "countdown_second ?sec ?s1 = (b, s2)" by (cases "countdown_second ?sec ?s1")
  with p2 have "P s2" by simp
  with Suc.IH [of s2 "tl script"] r show ?case by (cases b) simp_all
qed

lemma await_sample_invariant:
  assumes step: "\<And>r s. P s \<Longrightarrow> P (handleClient r s)"
  shows "P s \<Longrightarrow> await_sample ps arrives s = Inr (b, s') \<Longrightarrow> P s'"
proof (induction ps arbitrary: s)
  case Nil
  then show ?case by (simp split: if_splits)
next
  case (Cons p ps)
  have p1: "P (handleClient (p_req p) s)" using Cons.prems(1) by (rule step)
  show ?case
  proof (cases "cancelRequested (handleClient (p_req p) s)")
    case True
    with Cons.prems(2) p1 show ?thesis by (simp add: Let_def)
  next
    case False
    with Cons.prems(2) have "await_sample ps arrives (handleClient (p_req p) s) = Inr (b, s')"
      by (simp add: Let_def)
    with Cons.IH [OF p1] show ?thesis .
  qed
qed

lemma collect_invariant:
  assumes step: "\<And>r s. P s \<Longrightarrow> P (handleClient r s)"
    and buf: "\<And>s R I. P s \<Longrightarrow> P (s\<lparr> redBuffer := R, irBuffer := I \<rparr>)"
  shows "P s \<Longrightarrow> collect i n env s = Inr (b, s') \<Longrightarrow> P s'"
proof (induction i n env s rule: collect.induct)
  case (1 i n env s)
  show ?case
  proof (cases "i < n")
    case False
    with "1.prems" show ?thesis by (simp add: collect.simps)
  next
    case True
    let ?s1 = "handleClient (m_req (env i)) s"
    have p1: "P ?s1" using "1.prems"(1) by (rule step)
    show ?thesis
    proof (cases "cancelRequested ?s1 \<or> \<not> fingerPresent (m_ir (env i))")
      case True
      with \<open>i < n\<close> "1.prems"(2) p1 show ?thesis by (simp add: collect.simps [of i] Let_def)
    next
      case go: False
      show ?thesis
      proof (cases "await_sample (m_polls (env i)) (m_arrives (env i)) ?s1")
        case (Inl e)
        with \<open>i < n\<close> go "1.prems"(2) show ?thesis by (simp add: collect.simps [of i] Let_def)
      next
        case (Inr bs)
        obtain b2 s2 where bs: "bs = (b2, s2)" by (cases bs)
        have p2: "P s2" using await_sample_invariant [of P, OF step p1] Inr bs by blast
        show ?thesis
        proof (cases b2)
          case False
          with \<open>i < n\<close> go Inr bs "1.prems"(2) p2 show ?thesis
            by (simp add: collect.simps [of i] Let_def)
        next
          case True
          let ?s3 = "s2\<lparr> redBuffer := (redBuffer s2)[i := m_red (env i)],
                           irBuffer := (irBuffer s2)[i := m_irv (env i)] \<rparr>"
          have p3: "P ?s3" using p2 by (rule buf)
          have "collect (Suc i) n env ?s3 = Inr (b, s')"
            using \<open>i < n\<close> go Inr bs True "1.prems"(2) by (simp add: collect.simps [of i] Let_def)
          moreover have "b2 = True" using True by simp
          ultimately show ?thesis
            using "1.IH" [OF \<open>i < n\<close> refl go Inr bs [symmetric] _ p3] by blast
        qed
      qed
    qed
  qed
qed

lemma sampling_step:
  "i < TOTAL_SAMPLES \<Longrightarrow>
     sampling i env s =
       (case takeSingleReading i (env i)
               (handleClient (g_pre (env i)) (displaySampling (i + 1) TOTAL_SAMPLES s)) of
          Inl e \<Rightarrow> Inl e
        | Inr (False, s3) \<Rightarrow> Inr (Some i, displayIdle (resetMeasurement s3))
        | Inr (True, s3) \<Rightarrow>
            sampling (Suc i) env (yieldFor (g_pause (env i)) (handleClient (g_post (env i)) s3)))"
  by (simp add: sampling.simps [of i] Let_def)

lemma sampling_end: "\<not> i < TOTAL_SAMPLES \<Longrightarrow> sampling i env s = Inr (None, s)"
  by (simp add: sampling.simps [of i])

lemma takeSingleReading_result:
  assumes "takeSingleReading idx env s = Inr (b, s')"
  shows "idx < TOTAL_SAMPLES
         \<and> (\<exists>s1. collect 0 (sampleCounts ! idx) (g_sample env) s = Inr (b, s1)
                 \<and> s' = (if b then store_reading idx (g_est env) s1 else s1))"
proof -
  have idx: "idx < length sampleCounts"
    using assms by (auto simp add: takeSingleReading_def split: if_splits)
  then have c: "(case collect 0 (sampleCounts ! idx) (g_sample env) s of
           Inl e \<Rightarrow> Inl e
         | Inr (False, s1) \<Rightarrow> Inr (False, s1)
         | Inr (True, s1) \<Rightarrow> Inr (True, store_reading idx (g_est env) s1)) = Inr (b, s')"
    using assms by (simp add: takeSingleReading_def)
  show ?thesis
  proof (cases "collect 0 (sampleCounts ! idx) (g_sample env) s")
    case (Inl e)
    with c show ?thesis by simp
  next
    case (Inr bs)
    obtain b1 s1 where bs: "bs = (b1, s1)" by (cases bs)
    from c Inr bs idx show ?thesis
      by (cases b1) (auto simp add: sampleCounts_def TOTAL_SAMPLES_def)
  qed
qed

lemma takeSingleReading_invariant:
  assumes step: "\<And>r s. P s \<Longrightarrow> P (handleClient r s)"
    and buf: "\<And>s R I. P s \<Longrightarrow> P (s\<lparr> redBuffer := R, irBuffer := I \<rparr>)"
    and store: "\<And>s. P s \<Longrightarrow> P (store_reading idx (g_est env) s)"
    and "P s" and "takeSingleReading idx env s = Inr (b, s')"
  shows "P s'"
proof -
  from takeSingleReading_result [OF assms(5)] obtain s1 where
    c: "collect 0 (sampleCounts ! idx) (g_sample env) s = Inr (b, s1)"
    and s': "s' = (if b then store_reading idx (g_est env) s1 else s1)" by blast
  have "P s1" using collect_invariant [of P, OF step buf assms(4) c] .
  with s' store show ?thesis by simp
qed

lemma sampling_invariant:
  assumes step: "\<And>r s. P s \<Longrightarrow> P (handleClient r s)"
    and msg: "\<And>s m. P s \<Longrightarrow> P (s\<lparr> statusMsg := m \<rparr>)"
    and buf: "\<And>s R I. P s \<Longrightarrow> P (s\<lparr> redBuffer := R, irBuffer := I \<rparr>)"
    and store: "\<And>s i e. P s \<Longrightarrow> P (store_reading i e s)"
    and reset: "\<And>s. P s \<Longrightarrow> P (resetMeasurement s)"
  shows "P s \<Longrightarrow> sampling i env s = Inr (r, s') \<Longrightarrow> P s'"
proof (induction k \<equiv> "TOTAL_SAMPLES - i" arbitrary: i s)
  case 0
  then have "\<not> i < TOTAL_SAMPLES" by simp
  with "0.prems" show ?case by (simp add: sampling_end)
next
  case (Suc k)
  then have lt: "i < TOTAL_SAMPLES" by simp
  let ?s2 = "handleClient (g_pre (env i)) (displaySampling (i + 1) TOTAL_SAMPLES s)"
  have p2: "P ?s2" using Suc.prems(1) by (simp add: displaySampling_def step msg)
  show ?case
  proof (cases "takeSingleReading i (env i) ?s2")
    case (Inl e)
    with Suc.prems(2) lt show ?thesis by (simp add: sampling_step)
  next
    case (Inr bs)
    obtain b s3 where bs: "bs = (b, s3)" by (cases bs)
    have p3: "P s3"
      using takeSingleReading_invariant [of P i "env i" ?s2 b s3] step buf store p2 Inr bs
      by blast
    show ?thesis
    proof (cases b)
      case False
      with Suc.prems(2) lt Inr bs have "s' = displayIdle (resetMeasurement s3)"
        by (simp add: sampling_step)
      with p3 show ?thesis by (simp add: displayIdle_def msg reset)
    next
      case True
      let ?s4 = "yieldFor (g_pause (env i)) (handleClient (g_post (env i)) s3)"
      have p4: "P ?s4" using yieldFor_invariant [of P, OF step] step p3 by blast
      have "sampling (Suc i) env ?s4 = Inr (r, s')"
        using Suc.prems(2) lt Inr bs True by (simp add: sampling_step)
      moreover have "k = TOTAL_SAMPLES - Suc i" using Suc.hyps(2) by simp
      ultimately show ?thesis using Suc.hyps(1) p4 by blast
    qed
  qed
qed

lemma sampling_aborted:
  "sampling i env s = Inr (Some k, s') \<Longrightarrow> \<not> running s' \<and> \<not> cancelRequested s'
      \<and> validHRCount s' = 0 \<and> validSpO2Count s' = 0 \<and> patientName s' = []"
proof (induction j \<equiv> "TOTAL_SAMPLES - i" arbitrary: i s)
  case 0
  then have "\<not> i < TOTAL_SAMPLES" by simp
  with "0.prems" show ?case by (simp add: sampling_end)
next
  case (Suc j)
  then have lt: "i < TOTAL_SAMPLES" by simp
  let ?s2 = "handleClient (g_pre (env i)) (displaySampling (i + 1) TOTAL_SAMPLES s)"
  show ?case
  proof (cases "takeSingleReading i (env i) ?s2")
    case (Inl e)
    with Suc.prems lt show ?thesis by (simp add: sampling_step)
  next
    case (Inr bs)
    obtain b s3 where bs: "bs = (b, s3)" by (cases bs)
    show ?thesis
    proof (cases b)
      case False
      with Suc.prems lt Inr bs have "s' = displayIdle (resetMeasurement s3)"
        by (simp add: sampling_step)
      then show ?thesis by (simp add: displayIdle_def resetMeasurement_def)
    next
      case True
      let ?s4 = "yieldFor (g_pause (env i)) (handleClient (g_post (env i)) s3)"
      have "sampling (Suc i) env ?s4 = Inr (Some k, s')"
        using Suc.prems lt Inr bs True by (simp add: sampling_step)
      moreover have "j = TOTAL_SAMPLES - Suc i" using Suc.hyps(2) by simp
      ultimately show ?thesis using Suc.hyps(1) by blast
    qed
  qed
qed

lemma map_upt_store:
  "i < n \<Longrightarrow>
     (map (\<lambda>j. if j < i \<and> p j then v j else (0::rat)) [0..<n])[i := (if p i then v i else 0)]
       = map (\<lambda>j. if j < Suc i \<and> p j then v j else 0) [0..<n]"
  by (rule nth_equalityI) (auto simp add: nth_list_update less_Suc_eq)

lemma stages_done_step:
  "stages_done env i s \<Longrightarrow> stages_done env i (handleClient r s)"
proof -
  assume a: "stages_done env i s"
  then have "running s" by (simp add: stages_done_def)
  from handleClient_running [OF this, of r] a show ?thesis
    by (auto simp add: stages_done_def)
qed

lemma stages_done_msg: "stages_done env i s \<Longrightarrow> stages_done env i (s\<lparr> statusMsg := m \<rparr>)"
  by (simp add: stages_done_def)

lemma stages_done_buf:
  "stages_done env i s \<Longrightarrow> stages_done env i (s\<lparr> redBuffer := R, irBuffer := I \<rparr>)"
  by (simp add: stages_done_def)

lemma stages_done_store:
  assumes "stages_done env i s" and "i < TOTAL_SAMPLES"
  shows "stages_done env (Suc i) (store_reading i (g_est (env i)) s)"
proof -
  let ?e = "g_est (env i)"
  let ?s' = "store_reading i ?e s"
  have run: "running ?s'" using assms(1) by (simp add: stages_done_def store_reading_def Let_def)
  have hr: "hrReadings ?s' = (hrReadings s)[i := (if hr_accepted ?e then of_int (e_heartRate ?e) else 0)]"
    by (auto simp add: store_reading_def Let_def hr_accepted_def)
  have sp: "spo2Readings ?s' = (spo2Readings s)[i := (if spo2_accepted ?e then of_int (e_spo2 ?e) else 0)]"
    by (auto simp add: store_reading_def Let_def spo2_accepted_def)
  have hc: "validHRCount ?s' = validHRCount s + (if hr_accepted ?e then 1 else 0)"
    by (auto simp add: store_reading_def Let_def hr_accepted_def)
  have sc: "validSpO2Count ?s' = validSpO2Count s + (if spo2_accepted ?e then 1 else 0)"
    by (auto simp add: store_reading_def Let_def spo2_accepted_def)
  have hs: "hrReadings s = map (\<lambda>j. if j < i \<and> hr_accepted (g_est (env j))
                    then of_int (e_heartRate (g_est (env j))) else 0) [0..<TOTAL_SAMPLES]"
    and ss: "spo2Readings s = map (\<lambda>j. if j < i \<and> spo2_accepted (g_est (env j))
                    then of_int (e_spo2 (g_est (env j))) else 0) [0..<TOTAL_SAMPLES]"
    and cs: "validHRCount s = int (length (filter (\<lambda>j. hr_accepted (g_est (env j))) [0..<i]))"
      "validSpO2Count s = int (length (filter (\<lambda>j. spo2_accepted (g_est (env j))) [0..<i]))"
    using assms(1) by (simp_all add: stages_done_def)
  have hr': "hrReadings ?s' = map (\<lambda>j. if j < Suc i \<and> hr_accepted (g_est (env j))
                    then of_int (e_heartRate (g_est (env j))) else 0) [0..<TOTAL_SAMPLES]"
    unfolding hr hs
    by (rule map_upt_store [OF assms(2), of "\<lambda>j. hr_accepted (g_est (env j))"
          "\<lambda>j. rat_of_int (e_heartRate (g_est (env j)))"])
  have sp': "spo2Readings ?s' = map (\<lambda>j. if j < Suc i \<and> spo2_accepted (g_est (env j))
                    then of_int (e_spo2 (g_est (env j))) else 0) [0..<TOTAL_SAMPLES]"
    unfolding sp ss
    by (rule map_upt_store [OF assms(2), of "\<lambda>j. spo2_accepted (g_est (env j))"
          "\<lambda>j. rat_of_int (e_spo2 (g_est (env j)))"])
  have hc': "validHRCount ?s' = int (length (filter (\<lambda>j. hr_accepted (g_est (env j))) [0..<Suc i]))"
    using hc cs by simp
  have sc': "validSpO2Count ?s' = int (length (filter (\<lambda>j. spo2_accepted (g_est (env j))) [0..<Suc i]))"
    using sc cs by simp
  show ?thesis
    unfolding stages_done_def using run hr' sp' hc' sc' by blast
qed

lemma sampling_stages_done:
  "stages_done env i s \<Longrightarrow> sampling i env s = Inr (None, s') \<Longrightarrow> i \<le> TOTAL_SAMPLES \<Longrightarrow>
     stages_done env TOTAL_SAMPLES s'"
proof (induction k \<equiv> "TOTAL_SAMPLES - i" arbitrary: i s)
  case 0
  then have "i = TOTAL_SAMPLES" by simp
  with "0.prems" show ?case by (simp add: sampling_end)
next
  case (Suc k)
  then have lt: "i < TOTAL_SAMPLES" by simp
  let ?s2 = "handleClient (g_pre (env i)) (displaySampling (i + 1) TOTAL_SAMPLES s)"
  have p2: "stages_done env i ?s2"
    using Suc.prems(1) by (simp add: displaySampling_def stages_done_step stages_done_msg)
  show ?case
  proof (cases "takeSingleReading i (env i) ?s2")
    case (Inl e)
    with Suc.prems(2) lt show ?thesis by (simp add: sampling_step)
  next
    case (Inr bs)
    obtain b s3 where bs: "bs = (b, s3)" by (cases bs)
    show ?thesis
    proof (cases b)
      case False
      with Suc.prems(2) lt Inr bs show ?thesis by (simp add: sampling_step)
    next
      case True
      from takeSingleReading_result [of i "env i" ?s2 b s3] Inr bs True obtain s1 where
        c: "collect 0 (sampleCounts ! i) (g_sample (env i)) ?s2 = Inr (True, s1)"
        and s3: "s3 = store_reading i (g_est (env i)) s1" by auto
      have "stages_done env i s1"
        using collect_invariant [of "stages_done env i", OF stages_done_step stages_done_buf p2 c] .
      then have p3: "stages_done env (Suc i) s3" using s3 lt by (simp add: stages_done_store)
      let ?s4 = "yieldFor (g_pause (env i)) (handleClient (g_post (env i)) s3)"
      have p4: "stages_done env (Suc i) ?s4"
        using yieldFor_invariant [of "stages_done env (Suc i)", OF stages_done_step]
          stages_done_step p3 by blast
      have "sampling (Suc i) env ?s4 = Inr (None, s')"
        using Suc.prems(2) lt Inr bs True by (simp add: sampling_step)
      moreover have "k = TOTAL_SAMPLES - Suc i" using Suc.hyps(2) by simp
      moreover have "Suc i \<le> TOTAL_SAMPLES" using lt by simp
      ultimately show ?thesis using Suc.hyps(1) p4 by blast
    qed
  qed
qed

lemma loop_measure_cases:
  assumes "loop_measure env s = Inr (r, s')"
  shows "(\<not> running (handleClient (t_req env) s) \<and> r = Some IdleTick
            \<and> (s' = handleClient (t_req env) s
                \<or> s' = displayIdle ((handleClient (t_req env) s)\<lparr> lastDisplayMs := t_now env \<rparr>)))
       \<or> (running (handleClient (t_req env) s) \<and> cancelRequested (handleClient (t_req env) s)
            \<and> r = Some CancelledAtEntry
            \<and> s' = displayIdle (resetMeasurement (handleClient (t_req env) s)))
       \<or> (running (handleClient (t_req env) s) \<and> \<not> cancelRequested (handleClient (t_req env) s)
            \<and> \<not> fingerPresent (t_ir env) \<and> r = Some NoFinger
            \<and> (s' = handleClient (t_req_nf env) ((handleClient (t_req env) s)\<lparr> hadFinger := False \<rparr>)
                \<or> s' = handleClient (t_req_nf env)
                          (displayNoFinger ((handleClient (t_req env) s)
                             \<lparr> hadFinger := False, lastDisplayMs := t_now env \<rparr>))))
       \<or> (running (handleClient (t_req env) s) \<and> \<not> cancelRequested (handleClient (t_req env) s)
            \<and> fingerPresent (t_ir env)
            \<and> (\<exists>s2. greeting env (handleClient (t_req env) s) = (False, s2)
                      \<and> r = Some CancelledInCountdown \<and> s' = displayIdle (resetMeasurement s2)))
       \<or> (running (handleClient (t_req env) s) \<and> \<not> cancelRequested (handleClient (t_req env) s)
            \<and> fingerPresent (t_ir env)
            \<and> (\<exists>s2 k. greeting env (handleClient (t_req env) s) = (True, s2)
                      \<and> sampling 0 (t_stage env) s2 = Inr (Some k, s')
                      \<and> r = Some (AbortedInStage k)))
       \<or> (running (handleClient (t_req env) s) \<and> \<not> cancelRequested (handleClient (t_req env) s)
            \<and> fingerPresent (t_ir env)
            \<and> (\<exists>s2. greeting env (handleClient (t_req env) s) = (True, s2)
                      \<and> sampling 0 (t_stage env) s2 = Inr (None, s') \<and> r = None))"
  using assms unfolding loop_measure_def Let_def shouldRedisplay_def
  by (auto split: if_splits prod.splits sum.splits option.splits bool.splits)

lemma greeting_invariant:
  assumes step: "\<And>r s. P s \<Longrightarrow> P (handleClient r s)"
    and msg: "\<And>s m. P s \<Longrightarrow> P (s\<lparr> statusMsg := m \<rparr>)"
    and flag: "\<And>s b. P s \<Longrightarrow> P (s\<lparr> hadFinger := b \<rparr>)"
  shows "P s \<Longrightarrow> P (snd (greeting env s))"
proof -
  assume p: "P s"
  have "P (displayGreeting (s\<lparr> hadFinger := True \<rparr>))"
    using p by (simp add: displayGreeting_def msg flag)
  then have "P (yieldFor (t_greet env) (displayGreeting (s\<lparr> hadFinger := True \<rparr>)))"
    using yieldFor_invariant [of P, OF step] by blast
  then have "P (snd (interruptibleCountdown 3 (t_count env)
                (yieldFor (t_greet env) (displayGreeting (s\<lparr> hadFinger := True \<rparr>)))))"
    using interruptibleCountdown_invariant [of P, OF step msg] by blast
  with p show ?thesis by (simp add: greeting_def)
qed

lemma tick_invariant_step: "tick_invariant s \<Longrightarrow> tick_invariant (handleClient r s)"
  using handleClient_cases [of r s]
  by (auto simp add: tick_invariant_def handleStart_def)

lemma lengths_step:
  "length (hrReadings s) = TOTAL_SAMPLES \<and> length (spo2Readings s) = TOTAL_SAMPLES \<Longrightarrow>
   length (hrReadings (handleClient r s)) = TOTAL_SAMPLES
   \<and> length (spo2Readings (handleClient r s)) = TOTAL_SAMPLES"
  using handleClient_cases [of r s] by (auto simp add: handleStart_def)

lemma lengths_store:
  "length (hrReadings s) = TOTAL_SAMPLES \<and> length (spo2Readings s) = TOTAL_SAMPLES \<Longrightarrow>
   length (hrReadings (store_reading i e s)) = TOTAL_SAMPLES
   \<and> length (spo2Readings (store_reading i e s)) = TOTAL_SAMPLES"
  by (simp add: store_reading_def Let_def)

lemma loop_keeps_tick_invariant:
  assumes inv: "tick_invariant s" and run: "loop env s = Inr (e, s')"
  shows "tick_invariant s'"
proof -
  let ?L = "\<lambda>s. length (hrReadings s) = TOTAL_SAMPLES \<and> length (spo2Readings s) = TOTAL_SAMPLES"
  let ?s1 = "handleClient (t_req env) s"
  have i1: "tick_invariant ?s1" using inv by (rule tick_invariant_step)
  then have l1: "?L ?s1" by (simp add: tick_invariant_def)
  have idle: "\<And>u. ?L u \<Longrightarrow> \<not> running u \<Longrightarrow> tick_invariant u" by (simp add: tick_invariant_def)
  have lg: "?L (snd (greeting env ?s1))"
    by (rule greeting_invariant [of ?L, OF lengths_step _ _ l1]) simp_all
  have ls: "\<And>k r u. sampling k (t_stage env) (snd (greeting env ?s1)) = Inr (r, u) \<Longrightarrow> ?L u"
    by (rule sampling_invariant [of ?L, OF lengths_step _ _ lengths_store _ lg])
       (simp_all add: resetMeasurement_def)
  obtain r m where lm: "loop_measure env s = Inr (r, m)"
    using run by (cases "loop_measure env s") (auto simp add: loop_def)
  from loop_measure_cases [OF lm]
  consider (a) "r = Some IdleTick" "m = ?s1 \<or> m = displayIdle (?s1\<lparr> lastDisplayMs := t_now env \<rparr>)"
    | (b) "r = Some CancelledAtEntry" "m = displayIdle (resetMeasurement ?s1)"
    | (c) "r = Some NoFinger"
        "m = handleClient (t_req_nf env) (?s1\<lparr> hadFinger := False \<rparr>)
         \<or> m = handleClient (t_req_nf env)
                 (displayNoFinger (?s1\<lparr> hadFinger := False, lastDisplayMs := t_now env \<rparr>))"
    | (d) s2 where "greeting env ?s1 = (False, s2)" "r = Some CancelledInCountdown"
        "m = displayIdle (resetMeasurement s2)"
    | (e) s2 k where "greeting env ?s1 = (True, s2)" "sampling 0 (t_stage env) s2 = Inr (Some k, m)"
        "r = Some (AbortedInStage k)"
    | (f) s2 where "greeting env ?s1 = (True, s2)" "sampling 0 (t_stage env) s2 = Inr (None, m)"
        "r = None"
    by blast
  then show ?thesis
  proof cases
    case a
    with run lm have "s' = m" by (simp add: loop_def)
    with a i1 show ?thesis by (auto simp add: tick_invariant_def displayIdle_def)
  next
    case b
    with run lm have "s' = m" by (simp add: loop_def)
    with b l1 show ?thesis by (simp add: tick_invariant_def displayIdle_def resetMeasurement_def)
  next
    case c
    have "tick_invariant (?s1\<lparr> hadFinger := False \<rparr>)"
      "tick_invariant (displayNoFinger (?s1\<lparr> hadFinger := False, lastDisplayMs := t_now env \<rparr>))"
      using i1 by (simp_all add: tick_invariant_def displayNoFinger_def)
    then have "tick_invariant m" using c(2) tick_invariant_step by blast
    moreover from c run lm have "s' = m" by (simp add: loop_def)
    ultimately show ?thesis by simp
  next
    case d
    with run lm have "s' = m" by (simp add: loop_def)
    moreover from lg d(1) have "?L s2" by simp
    ultimately show ?thesis using d(3)
      by (simp add: tick_invariant_def displayIdle_def resetMeasurement_def)
  next
    case e
    with run lm have "s' = m" by (simp add: loop_def)
    moreover from ls [of 0 "Some k" m] e(1,2) have "?L m" by simp
    moreover from sampling_aborted [OF e(2)] have "\<not> running m" by simp
    ultimately show ?thesis using idle by blast
  next
    case f
    with run lm have s': "s' = loop_finish (t_hold env) m" by (simp add: loop_def)
    from ls [of 0 None m] f(1,2) have lm': "?L m" by simp
    let ?m2 = "displayResults ((calculateAverages m)\<lparr> running := False \<rparr>)"
    have "tick_invariant ?m2"
      using lm' by (simp add: tick_invariant_def displayResults_def calculateAverages_def Let_def)
    then have "tick_invariant (yieldFor (t_hold env) ?m2)"
      using yieldFor_invariant [of tick_invariant, OF tick_invariant_step] by blast
    then show ?thesis
      unfolding s' loop_finish_def Let_def
      by (simp add: tick_invariant_def displayIdle_def)
  qed
qed

lemma reachable_tick_invariant: "reachable s \<Longrightarrow> tick_invariant s"
proof (induction rule: reachable.induct)
  case at_boot
  show ?case
    by (simp add: tick_invariant_def boot_def initial_def displayIdle_def)
next
  case (after_tick s env e s')
  then show ?case using loop_keeps_tick_invariant by blast
qed

lemma bitlen_0: "bitlen 0 = 0"
  by (simp add: bitlen.simps)

lemma bitlen_pos: "0 < n \<Longrightarrow> bitlen n = Suc (bitlen (n div 2))"
  by (simp add: bitlen.simps [of n])

lemma bitlen_bounds: "0 < n \<Longrightarrow> 2 ^ (bitlen n - 1) \<le> n \<and> n < 2 ^ bitlen n"
proof (induction n rule: bitlen.induct)
  case (1 n)
  have bl: "bitlen n = Suc (bitlen (n div 2))" using "1.prems" by (rule bitlen_pos)
  show ?case
  proof (cases "n div 2 = 0")
    case True
    with "1.prems" have "n = 1" by (simp add: div_eq_0_iff)
    with bl True show ?thesis by (simp add: bitlen_0)
  next
    case False
    then have pos: "0 < n div 2" by simp
    from "1.IH" [OF _ pos] "1.prems"
    have ih: "2 ^ (bitlen (n div 2) - 1) \<le> n div 2" "n div 2 < 2 ^ bitlen (n div 2)" by simp_all
    have "bitlen (n div 2) = Suc (bitlen (n div 2 div 2))" using pos by (rule bitlen_pos)
    then have "(2::nat) ^ (bitlen n - 1) = 2 * 2 ^ (bitlen (n div 2) - 1)"
      using bl by simp
    with ih bl show ?thesis by simp linarith
  qed
qed

lemma bitlen_le: "n < 2 ^ k \<Longrightarrow> bitlen n \<le> k"
proof (cases "n = 0")
  case True
  then show ?thesis by (simp add: bitlen_0)
next
  case False
  assume "n < 2 ^ k"
  from False have pos: "0 < n" by simp
  from bitlen_bounds [OF pos] have "2 ^ (bitlen n - 1) \<le> n" by (rule conjunct1)
  from this \<open>n < 2 ^ k\<close> have "(2::nat) ^ (bitlen n - 1) < 2 ^ k" by (rule le_less_trans)
  then have "bitlen n - 1 < k" by simp
  then show ?thesis by simp
qed

lemma round_even_int: "round_even (of_int z) = z"
  by (simp add: round_even_def)

lemma round_even_error: "\<bar>of_int (round_even x) - x\<bar> \<le> 1 / 2"
proof -
  have "0 \<le> x - of_int \<lfloor>x\<rfloor>" "x - of_int \<lfloor>x\<rfloor> < 1" by linarith+
  then show ?thesis by (auto simp add: round_even_def Let_def)
qed

lemma pow2_pos: "0 < pow2 e"
  by (simp add: pow2_def)

lemma pow2_shift: "0 \<le> e \<Longrightarrow> pow2 (e - 23) = 2 ^ nat e / 2 ^ 23"
proof (cases "23 \<le> e")
  case True
  then have "nat e = nat (e - 23) + 23" by simp
  then have "(2::rat) ^ nat e = 2 ^ nat (e - 23) * 2 ^ 23" by (simp only: power_add)
  with True show ?thesis by (simp add: pow2_def)
next
  case False
  assume "0 \<le> e"
  with False have "(23::nat) = nat e + nat (23 - e)" by simp
  then have eq: "(2::rat) ^ 23 = 2 ^ nat e * 2 ^ nat (23 - e)" by (simp only: power_add)
  have "pow2 (e - 23) = 1 / 2 ^ nat (23 - e)" using False by (simp add: pow2_def)
  also have "\<dots> = 2 ^ nat e / (2 ^ nat e * 2 ^ nat (23 - e))" by simp
  also have "\<dots> = 2 ^ nat e / 2 ^ 23" by (simp only: eq)
  finally show ?thesis .
qed

lemma ilog2_bounds:
  assumes "1 \<le> a"
  shows "0 \<le> ilog2 a" and "2 ^ nat (ilog2 a) \<le> a"
proof -
  let ?n = "nat \<lfloor>a\<rfloor>"
  have n: "0 < ?n" using assms by simp
  have e: "ilog2 a = int (bitlen ?n) - 1" using assms by (simp add: ilog2_def)
  have bp: "0 < bitlen ?n" using bitlen_pos [OF n] by simp
  with e show "0 \<le> ilog2 a" by simp
  have "nat (ilog2 a) = bitlen ?n - 1" using e bp by simp
  with bitlen_bounds [OF n] have "2 ^ nat (ilog2 a) \<le> ?n" by simp
  then have "(2::rat) ^ nat (ilog2 a) \<le> of_nat ?n"
    by (metis of_nat_le_iff of_nat_numeral of_nat_power)
  also have "\<dots> \<le> a" using assms by simp
  finally show "2 ^ nat (ilog2 a) \<le> a" .
qed

lemma fl32_error:
  assumes "1 \<le> q"
  shows "\<bar>fl32 q - q\<bar> \<le> q / 2 ^ 24"
proof -
  let ?e = "ilog2 q"
  let ?u = "pow2 (?e - 23)"
  have e0: "0 \<le> ?e" and lo: "2 ^ nat ?e \<le> q" using ilog2_bounds [OF assms] by simp_all
  have u: "?u = 2 ^ nat ?e / 2 ^ 23" using e0 by (rule pow2_shift)
  have up: "0 < ?u" by (rule pow2_pos)
  have f: "fl32 q = of_int (round_even (q / ?u)) * ?u"
    using assms e0 by (simp add: fl32_def Let_def max_def)
  have "fl32 q - q = (of_int (round_even (q / ?u)) - q / ?u) * ?u"
    using up by (simp add: f field_simps)
  then have "\<bar>fl32 q - q\<bar> = \<bar>of_int (round_even (q / ?u)) - q / ?u\<bar> * ?u"
    using up by (simp add: abs_mult)
  also have "\<dots> \<le> (1 / 2) * ?u"
    using round_even_error [of "q / ?u"] up by (intro mult_right_mono) simp_all
  also have "\<dots> = 2 ^ nat ?e / 2 ^ 24" by (simp add: u)
  also have "\<dots> \<le> q / 2 ^ 24" using lo by (simp add: divide_right_mono)
  finally show ?thesis .
qed

lemma fl32_positive: "1 \<le> q \<Longrightarrow> 0 < fl32 q"
proof -
  assume a: "1 \<le> q"
  from fl32_error [OF a] have "q - q / 2 ^ 24 \<le> fl32 q" by linarith
  moreover have "0 < q - q / 2 ^ 24" using a by simp
  ultimately show ?thesis by linarith
qed

lemma fl32_int:
  assumes "0 \<le> n" and "n < 2 ^ 24"
  shows "fl32 (of_int n) = of_int n"
proof (cases "n = 0")
  case True
  then show ?thesis by (simp add: fl32_def)
next
  case False
  with assms have pos: "0 < n" by simp
  let ?a = "rat_of_int n"
  let ?e = "ilog2 ?a"
  have one: "1 \<le> ?a" using pos by simp
  have e0: "0 \<le> ?e" using ilog2_bounds [OF one] by simp
  have "nat n < 2 ^ 24" using assms by (simp add: nat_less_iff)
  then have "bitlen (nat n) \<le> 24" by (rule bitlen_le)
  then have e23: "?e \<le> 23" using one by (simp add: ilog2_def)
  let ?k = "nat (23 - ?e)"
  have u: "pow2 (?e - 23) = 1 / 2 ^ ?k"
  proof (cases "?e = 23")
    case True
    then show ?thesis by (simp add: pow2_def)
  next
    case False
    with e23 show ?thesis by (simp add: pow2_def)
  qed
  have r: "round_even (?a * 2 ^ ?k) = n * 2 ^ ?k"
    using round_even_int [of "n * 2 ^ ?k"] by simp
  have "fl32 ?a = of_int (round_even (?a / pow2 (?e - 23))) * pow2 (?e - 23)"
    using pos e0 by (simp add: fl32_def Let_def max_def)
  also have "\<dots> = ?a" by (simp add: r u)
  finally show ?thesis .
qed


lemma fold_positive_exact:
  assumes small: "\<And>i. i < n \<Longrightarrow> \<exists>k. g i = rat_of_int k \<and> 0 \<le> k \<and> k \<le> 220"
    and m: "0 \<le> m" "m + 220 * int n < 2 ^ 24"
  shows "\<exists>M. fold (\<lambda>i acc. if g i > 0 then fl32 (acc + g i) else acc) [0..<n] (of_int m) = of_int M
             \<and> rat_of_int M = of_int m + sum_list (map g [0..<n])
             \<and> 0 \<le> M \<and> M \<le> m + 220 * int n"
  using small m
proof (induction n)
  case 0
  then show ?case by simp
next
  case (Suc n)
  have "\<exists>M. fold (\<lambda>i acc. if g i > 0 then fl32 (acc + g i) else acc) [0..<n] (of_int m) = of_int M
             \<and> rat_of_int M = of_int m + sum_list (map g [0..<n])
             \<and> 0 \<le> M \<and> M \<le> m + 220 * int n"
    using Suc.prems by (intro Suc.IH) simp_all
  then obtain M where f: "fold (\<lambda>i acc. if g i > 0 then fl32 (acc + g i) else acc) [0..<n] (of_int m) = of_int M"
    and s: "rat_of_int M = of_int m + sum_list (map g [0..<n])"
    and b: "0 \<le> M" "M \<le> m + 220 * int n" by blast
  from Suc.prems(1) [of n] obtain k where k: "g n = rat_of_int k" "0 \<le> k" "k \<le> 220" by auto
  have "M + k < 2 ^ 24" using b k Suc.prems(3) by simp
  then have ex: "fl32 (rat_of_int M + rat_of_int k) = rat_of_int (M + k)"
    using fl32_int [of "M + k"] b k by simp
  have step: "fold (\<lambda>i acc. if g i > 0 then fl32 (acc + g i) else acc) [0..<Suc n] (of_int m)
        = (if g n > 0 then fl32 (of_int M + g n) else of_int M)"
    by (simp add: f)
  show ?case
  proof (cases "g n > 0")
    case True
    with step k ex have "fold (\<lambda>i acc. if g i > 0 then fl32 (acc + g i) else acc) [0..<Suc n] (of_int m)
        = of_int (M + k)" by simp
    moreover have "rat_of_int (M + k) = of_int m + sum_list (map g [0..<Suc n])"
      using s k by simp
    moreover have "0 \<le> M + k" "M + k \<le> m + 220 * int (Suc n)" using b k by simp_all
    ultimately show ?thesis by blast
  next
    case False
    with k have k0: "k = 0" by simp
    with step False have "fold (\<lambda>i acc. if g i > 0 then fl32 (acc + g i) else acc) [0..<Suc n] (of_int m)
        = of_int M" by simp
    moreover have "rat_of_int M = of_int m + sum_list (map g [0..<Suc n])"
      using s k k0 by simp
    moreover have "0 \<le> M" "M \<le> m + 220 * int (Suc n)" using b by simp_all
    ultimately show ?thesis by blast
  qed
qed

lemma sum_positive_filtered:
  assumes pos: "\<And>j. p j \<Longrightarrow> (0::int) < v j \<and> v j \<le> 220"
  shows "sum_positive (map (\<lambda>j. if j < TOTAL_SAMPLES \<and> p j then of_int (v j) else 0) [0..<TOTAL_SAMPLES])
           = sum_list (map (\<lambda>j. of_int (v j)) (filter p [0..<TOTAL_SAMPLES]))"
proof -
  let ?f = "\<lambda>j. if j < TOTAL_SAMPLES \<and> p j then rat_of_int (v j) else 0"
  let ?xs = "map ?f [0..<TOTAL_SAMPLES]"
  let ?g = "\<lambda>i. ?xs ! i"
  have small: "\<exists>k. ?g i = rat_of_int k \<and> 0 \<le> k \<and> k \<le> 220" if "i < TOTAL_SAMPLES" for i
  proof (cases "p i")
    case True
    with that pos [of i] show ?thesis by (intro exI [of _ "v i"]) simp
  next
    case False
    with that show ?thesis by (intro exI [of _ 0]) simp
  qed
  from fold_positive_exact [of TOTAL_SAMPLES ?g 0, OF small]
  obtain M where "fold (\<lambda>i acc. if ?g i > 0 then fl32 (acc + ?g i) else acc) [0..<TOTAL_SAMPLES] (of_int 0) = of_int M"
    and "rat_of_int M = of_int 0 + sum_list (map ?g [0..<TOTAL_SAMPLES])"
    by (auto simp add: TOTAL_SAMPLES_def)
  then have "sum_positive ?xs = sum_list (map ?g [0..<TOTAL_SAMPLES])"
    unfolding sum_positive_def by simp
  also have "\<dots> = sum_list (map (\<lambda>i. if p i then of_int (v i) else 0) [0..<TOTAL_SAMPLES])"
    by (rule arg_cong [where f = sum_list], rule map_cong) auto
  also have "\<dots> = sum_list (map (\<lambda>j. of_int (v j)) (filter p [0..<TOTAL_SAMPLES]))"
    by (simp add: sum_list_map_filter')
  finally show ?thesis .
qed

lemma sum_list_lower:
  "(\<And>x. x \<in> set xs \<Longrightarrow> (c::rat) \<le> x) \<Longrightarrow> c * of_nat (length xs) \<le> sum_list xs"
  by (induction xs) (auto simp add: algebra_simps add_mono)

lemma mean_lower:
  assumes "xs \<noteq> []" and "\<And>x. x \<in> set xs \<Longrightarrow> c \<le> x"
  shows "c \<le> mean xs"
proof -
  have n: "(0::rat) < of_nat (length xs)" using assms(1) by simp
  have "c * of_nat (length xs) \<le> sum_list xs" using assms(2) by (rule sum_list_lower)
  then have "c * of_nat (length xs) / of_nat (length xs) \<le> sum_list xs / of_nat (length xs)"
    using n by (intro divide_right_mono) simp_all
  with n show ?thesis by (simp add: mean_def)
qed

lemma stages_done_flag: "stages_done env i s \<Longrightarrow> stages_done env i (s\<lparr> hadFinger := b \<rparr>)"
  by (simp add: stages_done_def)

lemma loop_measure_full_run:
  assumes "reachable s" and "loop_measure env s = Inr (None, s3)"
  shows "stages_done (t_stage env) TOTAL_SAMPLES s3"
proof -
  let ?s1 = "handleClient (t_req env) s"
  from loop_measure_cases [OF assms(2)] obtain s2 where
    run: "running ?s1" and g: "greeting env ?s1 = (True, s2)"
    and sm: "sampling 0 (t_stage env) s2 = Inr (None, s3)" by auto
  have "tick_invariant ?s1"
    using assms(1) reachable_tick_invariant tick_invariant_step by blast
  with run have "stages_done (t_stage env) 0 ?s1"
    by (simp add: tick_invariant_def stages_done_def map_replicate_const)
  then have "stages_done (t_stage env) 0 (snd (greeting env ?s1))"
    using greeting_invariant [of "stages_done (t_stage env) 0" ?s1 env]
      stages_done_step stages_done_msg stages_done_flag by blast
  with g have "stages_done (t_stage env) 0 s2" by simp
  from sampling_stages_done [OF this sm] show ?thesis by simp
qed

lemma loop_measure_invariant:
  assumes step: "\<And>r s. P s \<Longrightarrow> P (handleClient r s)"
    and msg: "\<And>s m. P s \<Longrightarrow> P (s\<lparr> statusMsg := m \<rparr>)"
    and buf: "\<And>s R I. P s \<Longrightarrow> P (s\<lparr> redBuffer := R, irBuffer := I \<rparr>)"
    and store: "\<And>s i e. P s \<Longrightarrow> P (store_reading i e s)"
    and reset: "\<And>s. P s \<Longrightarrow> P (resetMeasurement s)"
    and flag: "\<And>s b. P s \<Longrightarrow> P (s\<lparr> hadFinger := b \<rparr>)"
    and clock: "\<And>s t. P s \<Longrightarrow> P (s\<lparr> lastDisplayMs := t \<rparr>)"
    and p: "P s" and run: "loop_measure env s = Inr (r, s')"
  shows "P s'"
proof -
  let ?s1 = "handleClient (t_req env) s"
  have p1: "P ?s1" using p by (rule step)
  have pg: "P (snd (greeting env ?s1))"
    using greeting_invariant [of P ?s1 env] step msg flag p1 by blast
  have ps: "\<And>r u. sampling 0 (t_stage env) (snd (greeting env ?s1)) = Inr (r, u) \<Longrightarrow> P u"
    using sampling_invariant [of P "snd (greeting env ?s1)" 0 "t_stage env"]
      step msg buf store reset pg by blast
  from loop_measure_cases [OF run]
  consider (a) "s' = ?s1 \<or> s' = displayIdle (?s1\<lparr> lastDisplayMs := t_now env \<rparr>)"
    | (b) "s' = displayIdle (resetMeasurement ?s1)"
    | (c) "s' = handleClient (t_req_nf env) (?s1\<lparr> hadFinger := False \<rparr>)
         \<or> s' = handleClient (t_req_nf env)
                 (displayNoFinger (?s1\<lparr> hadFinger := False, lastDisplayMs := t_now env \<rparr>))"
    | (d) s2 where "greeting env ?s1 = (False, s2)" "s' = displayIdle (resetMeasurement s2)"
    | (e) s2 k where "greeting env ?s1 = (True, s2)" "sampling 0 (t_stage env) s2 = Inr (k, s')"
    by blast
  then show ?thesis
  proof cases
    case a
    with p1 show ?thesis by (auto simp add: displayIdle_def msg clock)
  next
    case b
    with p1 show ?thesis by (simp add: displayIdle_def msg reset)
  next
    case c
    have "P (?s1\<lparr> hadFinger := False \<rparr>)" using p1 by (rule flag)
    moreover from this have "P (displayNoFinger (?s1\<lparr> hadFinger := False, lastDisplayMs := t_now env \<rparr>))"
      using clock [of "?s1\<lparr> hadFinger := False \<rparr>" "t_now env"] by (simp add: displayNoFinger_def msg)
    ultimately show ?thesis using c step by blast
  next
    case d
    with pg have "P s2" by simp
    with d(2) show ?thesis by (simp add: displayIdle_def msg reset)
  next
    case e
    with ps [of k s'] show ?thesis by simp
  qed
qed

lemma never_completed_zero: "never_completed s \<Longrightarrow> avgHR s = 0 \<and> avgSpO2 s = 0"
proof (induction rule: never_completed.induct)
  case fresh_boot
  show ?case by (simp add: boot_def initial_def displayIdle_def)
next
  case (uncompleted_tick s env e s')
  let ?Z = "\<lambda>s::globals. avgHR s = 0 \<and> avgSpO2 s = 0"
  have step: "\<And>r s. ?Z s \<Longrightarrow> ?Z (handleClient r s)"
  proof -
    fix r and s :: globals assume "?Z s"
    with handleClient_cases [of r s] show "?Z (handleClient r s)"
      by (auto simp add: handleStart_def)
  qed
  from uncompleted_tick.hyps(2,3) have lm: "loop_measure env s = Inr (Some e, s')"
    by (auto simp add: loop_def split: sum.splits prod.splits option.splits)
  show ?case
    by (rule loop_measure_invariant [of ?Z, OF step _ _ _ _ _ _ uncompleted_tick.IH lm])
       (simp_all add: store_reading_def Let_def resetMeasurement_def)
qed

lemma await_sample_split:
  "await_sample ps True s = Inr (True, sw) \<Longrightarrow>
     await_sample (ps @ rest) arrives s = await_sample rest arrives sw"
  by (induction ps arbitrary: s) (auto simp add: Let_def split: if_splits)

lemma collect_split:
  "collect j i env s = Inr (True, si) \<Longrightarrow> j \<le> i \<Longrightarrow> i \<le> n \<Longrightarrow>
     collect j n env s = collect i n env si"
proof (induction k \<equiv> "i - j" arbitrary: j s)
  case 0
  then have ji: "j = i" by simp
  with "0.prems"(1) have "si = s" by (simp add: collect.simps [of i])
  with ji show ?case by simp
next
  case (Suc k)
  then have lt: "j < i" and ltn: "j < n" by simp_all
  let ?s1 = "handleClient (m_req (env j)) s"
  from Suc.prems(1) lt have go: "\<not> (cancelRequested ?s1 \<or> \<not> fingerPresent (m_ir (env j)))"
    by (auto simp add: collect.simps [of j] Let_def split: if_splits)
  show ?case
  proof (cases "await_sample (m_polls (env j)) (m_arrives (env j)) ?s1")
    case (Inl e)
    with Suc.prems(1) lt go show ?thesis by (simp add: collect.simps [of j] Let_def)
  next
    case (Inr bs)
    obtain b s2 where bs: "bs = (b, s2)" by (cases bs)
    show ?thesis
    proof (cases b)
      case False
      with Suc.prems(1) lt go Inr bs show ?thesis by (simp add: collect.simps [of j] Let_def)
    next
      case True
      let ?s3 = "s2\<lparr> redBuffer := (redBuffer s2)[j := m_red (env j)],
                       irBuffer := (irBuffer s2)[j := m_irv (env j)] \<rparr>"
      have a: "collect (Suc j) i env ?s3 = Inr (True, si)"
        using Suc.prems(1) lt go Inr bs True by (simp add: collect.simps [of j] Let_def)
      have b: "collect j n env s = collect (Suc j) n env ?s3"
        using ltn go Inr bs True by (simp add: collect.simps [of j n] Let_def)
      have "k = i - Suc j" using Suc.hyps(2) by simp
      from Suc.hyps(1) [OF this a] lt Suc.prems(3) b show ?thesis by simp
    qed
  qed
qed

lemma start_after_cancel:
  "\<not> running s \<Longrightarrow>
     handleClient (Some \<lparr> rq_method = POST, rq_path = ''/start'', rq_plain = plain \<rparr>)
       (s\<lparr> cancelRequested := True \<rparr>)
     = handleClient (Some \<lparr> rq_method = POST, rq_path = ''/start'', rq_plain = plain \<rparr>) s"
  by (simp add: handleClient_def dispatch_def handleStart_def)

lemma start_clears_cancel:
  "\<not> running s \<Longrightarrow>
     \<not> cancelRequested (handleClient (Some \<lparr> rq_method = POST, rq_path = ''/start'', rq_plain = plain \<rparr>) s)
     \<and> running (handleClient (Some \<lparr> rq_method = POST, rq_path = ''/start'', rq_plain = plain \<rparr>) s)"
  by (simp add: handleClient_def dispatch_def handleStart_def)

lemma idle_tick_keeps_cancel:
  assumes "cancelRequested s" and "\<not> running (handleClient (t_req env) s)"
  shows "\<exists>s'. loop env s = Inr (IdleTick, s') \<and> \<not> running s' \<and> cancelRequested s'"
proof -
  let ?s1 = "handleClient (t_req env) s"
  have c1: "cancelRequested ?s1"
    using handleClient_cases [of "t_req env" s] assms by (auto simp add: handleStart_def)
  show ?thesis
    using assms(2) c1
    by (auto simp add: loop_def loop_measure_def Let_def shouldRedisplay_def displayIdle_def)
qed

section \<open>Properties\<close>

subsection \<open>Result classification\<close>

text \<open>
  Claim C1. In every state that is not running and has a nonzero average, the status
  member of the snapshot is "Normal" when avgSpO2 is at least 95 and avgHR lies in
  [60, 100], otherwise "Warning" when avgSpO2 is at least 90, otherwise "Critical";
  the averages (72, 98) give "Normal", (72, 92) and (110, 97) give "Warning".
\<close>

theorem status_classification:
  "\<not> running s \<Longrightarrow> avgHR s \<noteq> 0 \<or> avgSpO2 s \<noteq> 0 \<Longrightarrow>
     map_of (json_fields s) ''status'' =
       Some (JStr (if avgSpO2 s \<ge> 95 \<and> 60 \<le> avgHR s \<and> avgHR s \<le> 100 then ''Normal''
                   else if avgSpO2 s \<ge> 90 then ''Warning'' else ''Critical''))
     \<and> json_status (s\<lparr> avgHR := 72, avgSpO2 := 98 \<rparr>) = ''Normal''
     \<and> json_status (s\<lparr> avgHR := 72, avgSpO2 := 92 \<rparr>) = ''Warning''
     \<and> json_status (s\<lparr> avgHR := 110, avgSpO2 := 97 \<rparr>) = ''Warning''"
  by (auto simp add: json_fields_def json_status_def json_classify_def)

theorem status_classification_witness:
  "\<not> running (initial\<lparr> avgHR := 110, avgSpO2 := 97 \<rparr>)
   \<and> avgHR (initial\<lparr> avgHR := 110, avgSpO2 := 97 \<rparr>) \<noteq> 0
   \<and> map_of (json_fields (initial\<lparr> avgHR := 110, avgSpO2 := 97 \<rparr>)) ''status''
        = Some (JStr ''Warning'')"
  using status_classification [of "initial\<lparr> avgHR := 110, avgSpO2 := 97 \<rparr>"]
  by (simp add: initial_def)

text \<open>
  Claim C2, as the sketch has it. The snapshot reports "measuring" whenever a session is
  running. It reports "idle" exactly when no session is running and both averages are
  zero: that is the case as long as no session has ever completed, and it is the case
  again after a session in which every result was rejected, and after a Begin request
  has zeroed the averages of an earlier session. In every other state it reports the
  three-way classification.
\<close>

theorem status_cases:
  "map_of (json_fields s) ''status'' = Some (JStr (json_status s))
   \<and> json_status s =
       (if running s then ''measuring''
        else if avgHR s = 0 \<and> avgSpO2 s = 0 then ''idle''
        else if avgSpO2 s \<ge> 95 \<and> 60 \<le> avgHR s \<and> avgHR s \<le> 100 then ''Normal''
        else if avgSpO2 s \<ge> 90 then ''Warning''
        else ''Critical'')
   \<and> (never_completed s \<and> \<not> running s \<longrightarrow> json_status s = ''idle'')"
  using never_completed_zero [of s]
  by (auto simp add: json_fields_def json_status_def json_classify_def)

theorem status_cases_witness:
  "never_completed boot \<and> \<not> running boot \<and> json_status boot = ''idle''
   \<and> json_status begun = ''measuring''"
proof -
  have a: "never_completed boot" by (rule fresh_boot)
  have b: "\<not> running boot" by (simp add: boot_def initial_def displayIdle_def)
  have c: "running begun" by (simp add: begun_def handleStart_def b)
  from status_cases [of boot] a b have "json_status boot = ''idle''" by blast
  moreover from status_cases [of begun] c have "json_status begun = ''measuring''" by simp
  ultimately show ?thesis using a b by blast
qed

text \<open>
  The claim as stated fails: after power-up a session runs through all five stages, each
  estimate is rejected, the session completes, and the snapshot says "idle".
\<close>

theorem idle_after_completion_counterexample:
  "loop (session_tick (\<lambda>i. quiet_stage no_est None)) boot
     = Inr (Completed, boot\<lparr> irBuffer := replicate 90 60000, spo2 := - 999, heartRate := - 999,
                              hadFinger := True \<rparr>)
   \<and> \<not> running (boot\<lparr> irBuffer := replicate 90 60000, spo2 := - 999, heartRate := - 999,
                        hadFinger := True \<rparr>)
   \<and> json_status (boot\<lparr> irBuffer := replicate 90 60000, spo2 := - 999, heartRate := - 999,
                         hadFinger := True \<rparr>) = ''idle''"
  by code_simp

text \<open>
  Claim C10, as the sketch has it. The three-way expression of the snapshot handler and
  the one of the result screen give the same label for every pair of averages. In a state
  that is not running, the status the handler reports is the label the result screen
  shows whenever one of the averages is nonzero; when both are zero the handler reports
  "idle" and the result screen shows "Critical".
\<close>

theorem labels_agree_unless_both_zero:
  "json_classify hr sp = statusLabel hr sp
   \<and> (\<not> running s \<and> (avgHR s \<noteq> 0 \<or> avgSpO2 s \<noteq> 0) \<longrightarrow>
        json_status s = statusMsg (displayResults s))
   \<and> (\<not> running s \<and> avgHR s = 0 \<and> avgSpO2 s = 0 \<longrightarrow>
        json_status s = ''idle'' \<and> statusMsg (displayResults s) = ''Critical'')"
  by (auto simp add: json_status_def json_classify_def statusLabel_def displayResults_def
        fit32_def)

theorem labels_agree_unless_both_zero_witness:
  "\<not> running (initial\<lparr> avgHR := 72, avgSpO2 := 92 \<rparr>)
   \<and> avgHR (initial\<lparr> avgHR := 72, avgSpO2 := 92 \<rparr>) \<noteq> 0
   \<and> json_status (initial\<lparr> avgHR := 72, avgSpO2 := 92 \<rparr>) = ''Warning''
   \<and> statusMsg (displayResults (initial\<lparr> avgHR := 72, avgSpO2 := 92 \<rparr>)) = ''Warning''
   \<and> \<not> running initial \<and> avgHR initial = 0 \<and> avgSpO2 initial = 0
   \<and> json_status initial = ''idle''
   \<and> statusMsg (displayResults initial) = ''Critical''"
  using labels_agree_unless_both_zero [of 72 92 "initial\<lparr> avgHR := 72, avgSpO2 := 92 \<rparr>"]
    labels_agree_unless_both_zero [of 0 0 initial]
  by (simp add: initial_def json_status_def json_classify_def statusLabel_def
        displayResults_def fit32_def)

text \<open>
  The claim as stated has the two labels equal for every pair of averages. After power-up
  a session runs through all five stages with every estimate rejected; at its completion
  both averages are 0, the result screen is drawn with the label "Critical", and the
  snapshot handler, asked during the result hold, reports "idle".
\<close>

theorem idle_versus_critical_counterexample:
  "loop_measure (session_tick (\<lambda>i. quiet_stage no_est None)) boot
     = Inr (None, boot\<lparr> irBuffer := replicate 90 60000, spo2 := - 999, heartRate := - 999,
                        running := True, hadFinger := True,
                        statusMsg := ''Sample 5 of 5'', patientName := ''Ann'' \<rparr>)
   \<and> \<not> running (displayResults ((calculateAverages (boot\<lparr> irBuffer := replicate 90 60000, spo2 := - 999, heartRate := - 999,
                        running := True, hadFinger := True,
                        statusMsg := ''Sample 5 of 5'', patientName := ''Ann'' \<rparr>))\<lparr> running := False \<rparr>))
   \<and> json_status (displayResults ((calculateAverages (boot\<lparr> irBuffer := replicate 90 60000, spo2 := - 999, heartRate := - 999,
                        running := True, hadFinger := True,
                        statusMsg := ''Sample 5 of 5'', patientName := ''Ann'' \<rparr>))\<lparr> running := False \<rparr>))
       = ''idle''
   \<and> statusMsg (displayResults ((calculateAverages (boot\<lparr> irBuffer := replicate 90 60000, spo2 := - 999, heartRate := - 999,
                        running := True, hadFinger := True,
                        statusMsg := ''Sample 5 of 5'', patientName := ''Ann'' \<rparr>))\<lparr> running := False \<rparr>))
       = ''Critical''"
  by code_simp

subsection \<open>The status snapshot\<close>

text \<open>
  Claim C9, as the sketch has it. The snapshot has exactly the members heartRate, spo2,
  hrValid, spo2Valid, totalSamples, running and status, in this order: the two averages
  cast to \<open>int\<close>, which drops the fraction (towards zero), the two counters, the
  constant 5, the running flag, and a status that is one of "idle", "measuring",
  "Normal", "Warning", "Critical". Producing it changes no global.
\<close>

theorem snapshot_fields:
  "snd (handleJSON s) = s
   \<and> rs_code (fst (handleJSON s)) = 200
   \<and> rs_body (fst (handleJSON s)) = render_json (json_fields s)
   \<and> json_fields s =
        [(''heartRate'', JInt (if avgHR s < 0 then - \<lfloor>- avgHR s\<rfloor> else \<lfloor>avgHR s\<rfloor>)),
         (''spo2'', JInt (if avgSpO2 s < 0 then - \<lfloor>- avgSpO2 s\<rfloor> else \<lfloor>avgSpO2 s\<rfloor>)),
         (''hrValid'', JInt (validHRCount s)),
         (''spo2Valid'', JInt (validSpO2Count s)),
         (''totalSamples'', JInt 5),
         (''running'', JBool (running s)),
         (''status'', JStr (json_status s))]
   \<and> json_status s \<in> {''idle'', ''measuring'', ''Normal'', ''Warning'', ''Critical''}"
  by (simp add: handleJSON_def json_fields_def to_int_def ceiling_def TOTAL_SAMPLES_def
        json_status_def json_classify_def)

theorem snapshot_fields_witness:
  "json_fields (calculateAverages (begun\<lparr> hrReadings := [72, 73, 73, 72, 73], validHRCount := 5 \<rparr>))
     = [(''heartRate'', JInt 72), (''spo2'', JInt 0), (''hrValid'', JInt 5), (''spo2Valid'', JInt 0),
        (''totalSamples'', JInt 5), (''running'', JBool True), (''status'', JStr ''measuring'')]"
proof -
  have "\<lfloor>9515827 / 131072 :: rat\<rfloor> = 72" by code_simp
  moreover have "calculateAverages (begun\<lparr> hrReadings := [72, 73, 73, 72, 73], validHRCount := 5 \<rparr>)
     = begun\<lparr> hrReadings := [72, 73, 73, 72, 73], validHRCount := 5, avgHR := 9515827 / 131072 \<rparr>"
    by code_simp
  ultimately show ?thesis
    using snapshot_fields [of "begun\<lparr> hrReadings := [72, 73, 73, 72, 73], validHRCount := 5, avgHR := 9515827 / 131072 \<rparr>"]
    by (simp add: begun_def handleStart_def boot_def initial_def displayIdle_def json_status_def)
qed

text \<open>
  The claim as stated says the rounded average: five accepted heart rates 72, 73, 73, 72,
  73 average to 72.6 (the float 9515827/131072), which rounds to 73, and the snapshot
  says 72.
\<close>

theorem snapshot_rounding_counterexample:
  "avgHR (calculateAverages (begun\<lparr> hrReadings := [72, 73, 73, 72, 73], validHRCount := 5 \<rparr>))
     = 9515827 / 131072
   \<and> map_of (json_fields (calculateAverages
               (begun\<lparr> hrReadings := [72, 73, 73, 72, 73], validHRCount := 5 \<rparr>))) ''heartRate''
       = Some (JInt 72)
   \<and> round (9515827 / 131072 :: rat) = 73"
  by code_simp


subsection \<open>The Begin request\<close>

text \<open>
  Claim C6. A Begin request that arrives while a session is running leaves every global
  as it is and is answered with the success acknowledgement; one that arrives while no
  session is running resets the session (flags, counters, averages, readings), stores the
  label of the body (empty when there is none), and is answered the same way.
\<close>

theorem begin_request:
  "fst (handleStart plain s) = ok_reply
   \<and> rs_code ok_reply = 200
   \<and> rs_body ok_reply = ''{'' @ [CHR 0x22] @ ''ok'' @ [CHR 0x22] @ '':true}''
   \<and> (running s \<longrightarrow> snd (handleStart plain s) = s)
   \<and> (\<not> running s \<longrightarrow>
        snd (handleStart plain s) =
          s\<lparr> patientName := (case plain of Some (Doc (NameText t)) \<Rightarrow> take 31 t | _ \<Rightarrow> []),
             running := True, hadFinger := False, cancelRequested := False,
             validHRCount := 0, validSpO2Count := 0, avgHR := 0, avgSpO2 := 0,
             hrReadings := [0, 0, 0, 0, 0], spo2Readings := [0, 0, 0, 0, 0],
             statusMsg := ''Starting...'' \<rparr>)"
  by (auto simp add: handleStart_def ok_reply_def render_json_def start_name_def fit32_def
        TOTAL_SAMPLES_def numeral_eq_Suc split: option.splits body.splits name_member.splits)

theorem begin_request_witness:
  "running (initial\<lparr> running := True, patientName := ''Ann'', validHRCount := 2 \<rparr>)
   \<and> snd (handleStart (Some (Doc (NameText ''Bob'')))
            (initial\<lparr> running := True, patientName := ''Ann'', validHRCount := 2 \<rparr>))
        = initial\<lparr> running := True, patientName := ''Ann'', validHRCount := 2 \<rparr>
   \<and> \<not> running (initial\<lparr> validHRCount := 2 \<rparr>)
   \<and> patientName (snd (handleStart (Some (Doc (NameText ''Bob''))) (initial\<lparr> validHRCount := 2 \<rparr>)))
        = ''Bob''
   \<and> validHRCount (snd (handleStart (Some (Doc (NameText ''Bob''))) (initial\<lparr> validHRCount := 2 \<rparr>)))
        = 0"
  using begin_request [of "Some (Doc (NameText ''Bob''))"
          "initial\<lparr> running := True, patientName := ''Ann'', validHRCount := 2 \<rparr>"]
        begin_request [of "Some (Doc (NameText ''Bob''))" "initial\<lparr> validHRCount := 2 \<rparr>"]
  by (simp add: initial_def)

subsection \<open>The Cancel request\<close>

text \<open>
  Claim C7, as the sketch has it. A Cancel request sets \<open>cancelRequested\<close>, changes
  nothing else and is answered with the success acknowledgement. When no session is
  running, the calls of \<open>loop()\<close> that find the device idle leave the flag set; the
  Begin request that starts the next session clears it, and the call of \<open>loop()\<close>
  that serves this Begin request runs exactly as if the Cancel request had never been
  made. So a cancel issued while idle never aborts a later session.
\<close>

theorem cancel_request_effect:
  "handleCancel s = (ok_reply, s\<lparr> cancelRequested := True \<rparr>)
   \<and> rs_code ok_reply = 200
   \<and> (\<not> running s \<longrightarrow>
        (\<forall>env. \<not> running (handleClient (t_req env) (snd (handleCancel s))) \<longrightarrow>
           (\<exists>s'. loop env (snd (handleCancel s)) = Inr (IdleTick, s')
                 \<and> \<not> running s' \<and> cancelRequested s'))
        \<and> (\<forall>env plain.
             t_req env = Some \<lparr> rq_method = POST, rq_path = ''/start'', rq_plain = plain \<rparr> \<longrightarrow>
               \<not> cancelRequested (handleClient (t_req env) (snd (handleCancel s)))
               \<and> running (handleClient (t_req env) (snd (handleCancel s)))
               \<and> loop env (snd (handleCancel s)) = loop env s))"
proof -
  have a: "handleCancel s = (ok_reply, s\<lparr> cancelRequested := True \<rparr>)"
    by (simp add: handleCancel_def)
  have b: "rs_code ok_reply = 200" by (simp add: ok_reply_def)
  have c: "\<exists>s'. loop env (snd (handleCancel s)) = Inr (IdleTick, s')
                 \<and> \<not> running s' \<and> cancelRequested s'"
    if "\<not> running (handleClient (t_req env) (snd (handleCancel s)))" for env
    using idle_tick_keeps_cancel [of "snd (handleCancel s)" env] that by (simp add: a)
  have d: "\<not> cancelRequested (handleClient (t_req env) (snd (handleCancel s)))
               \<and> running (handleClient (t_req env) (snd (handleCancel s)))
               \<and> loop env (snd (handleCancel s)) = loop env s"
    if idle: "\<not> running s"
      and rq: "t_req env = Some \<lparr> rq_method = POST, rq_path = ''/start'', rq_plain = plain \<rparr>"
    for env plain
  proof -
    have e: "handleClient (t_req env) (snd (handleCancel s)) = handleClient (t_req env) s"
      using start_after_cancel [OF idle, of plain] by (simp add: a rq)
    then have "loop env (snd (handleCancel s)) = loop env s"
      by (simp add: loop_def loop_measure_def)
    with e start_clears_cancel [OF idle, of plain] rq show ?thesis by simp
  qed
  from a b c d show ?thesis by blast
qed

theorem cancel_request_effect_witness:
  "\<not> running boot
   \<and> snd (handleCancel boot) = boot\<lparr> cancelRequested := True \<rparr>
   \<and> \<not> running (handleClient (t_req (idle_tick None 2000)) (boot\<lparr> cancelRequested := True \<rparr>))
   \<and> (\<exists>s'. loop (idle_tick None 2000) (boot\<lparr> cancelRequested := True \<rparr>) = Inr (IdleTick, s')
             \<and> \<not> running s' \<and> cancelRequested s')
   \<and> t_req (session_tick mixed_stages)
       = Some \<lparr> rq_method = POST, rq_path = ''/start'', rq_plain = Some (Doc (NameText ''Ann'')) \<rparr>
   \<and> loop (session_tick mixed_stages) (boot\<lparr> cancelRequested := True \<rparr>)
       = Inr (Completed,
              boot\<lparr> irBuffer := replicate 90 60000, spo2 := 99, heartRate := 300,
                    spo2Valid := 1, hrValid := 1, hrReadings := [72, 0, 74, 75, 0],
                    spo2Readings := [98, 0, 97, 0, 99], validHRCount := 3, validSpO2Count := 3,
                    avgHR := 9655637 / 131072, avgSpO2 := 98, hadFinger := True \<rparr>)"
proof -
  have a: "\<not> running boot" by (simp add: boot_def initial_def displayIdle_def)
  have b: "t_req (session_tick mixed_stages)
       = Some \<lparr> rq_method = POST, rq_path = ''/start'', rq_plain = Some (Doc (NameText ''Ann'')) \<rparr>"
    by (simp add: session_tick_def start_request_def)
  have c: "loop (session_tick mixed_stages) boot
       = Inr (Completed,
              boot\<lparr> irBuffer := replicate 90 60000, spo2 := 99, heartRate := 300,
                    spo2Valid := 1, hrValid := 1, hrReadings := [72, 0, 74, 75, 0],
                    spo2Readings := [98, 0, 97, 0, 99], validHRCount := 3, validSpO2Count := 3,
                    avgHR := 9655637 / 131072, avgSpO2 := 98, hadFinger := True \<rparr>)"
    by code_simp
  from cancel_request_effect [of boot] a b
  have "loop (session_tick mixed_stages) (snd (handleCancel boot)) = loop (session_tick mixed_stages) boot"
    by blast
  moreover from cancel_request_effect [of boot]
  have d: "snd (handleCancel boot) = boot\<lparr> cancelRequested := True \<rparr>" by simp
  moreover have e: "\<not> running (handleClient (t_req (idle_tick None 2000)) (snd (handleCancel boot)))"
    by (simp add: idle_tick_def handleClient_def handleCancel_def a)
  moreover from cancel_request_effect [of boot] a e
  have "\<exists>s'. loop (idle_tick None 2000) (snd (handleCancel boot)) = Inr (IdleTick, s')
             \<and> \<not> running s' \<and> cancelRequested s'"
    by blast
  ultimately show ?thesis using a b c by simp
qed

text \<open>
  The claim as stated has the flag cleared on the next entry to Idle. A Cancel request
  served during the result hold, when no session is running any more, sets the flag; the
  hold ends, the device enters Idle, and the flag is still set. A Cancel request served
  while idle sets the flag, and the next idle pass of \<open>loop()\<close> returns with the flag
  still set.
\<close>

theorem cancel_stays_while_idle_counterexample:
  "loop hold_cancel_tick boot
     = Inr (Completed,
            boot\<lparr> irBuffer := replicate 90 60000, spo2 := 98, heartRate := 72,
                  spo2Valid := 1, hrValid := 1, hrReadings := [72, 72, 72, 72, 72],
                  spo2Readings := [98, 98, 98, 98, 98], validHRCount := 5, validSpO2Count := 5,
                  avgHR := 72, avgSpO2 := 98, hadFinger := True, cancelRequested := True \<rparr>)
   \<and> loop (idle_tick (Some cancel_request) 1000) boot
     = Inr (IdleTick, boot\<lparr> cancelRequested := True, lastDisplayMs := 1000 \<rparr>)
   \<and> loop (idle_tick None 2000) (boot\<lparr> cancelRequested := True, lastDisplayMs := 1000 \<rparr>)
     = Inr (IdleTick, boot\<lparr> cancelRequested := True, lastDisplayMs := 2000 \<rparr>)
   \<and> cancelRequested (boot\<lparr> cancelRequested := True, lastDisplayMs := 2000 \<rparr>)"
  by code_simp

subsection \<open>Stages\<close>

text \<open>
  Claim C3. In every stage, once the window is full the stage returns true whatever the
  estimator says, and what it has stored is this: the heart rate is written to the
  stage's reading, and counted, exactly when its validity flag is set and it lies in
  [40, 220], the saturation exactly when its flag is set and it lies in [80, 100]; a
  rejected metric leaves 0 in the stage's reading and the counter as it was. The two
  filters are independent, so a stage can store one metric and reject the other.
\<close>

theorem stage_filter:
  assumes "idx < TOTAL_SAMPLES"
    and "collect 0 (sampleCounts ! idx) (g_sample env) s = Inr (True, s1)"
  shows "takeSingleReading idx env s = Inr (True, store_reading idx (g_est env) s1)
       \<and> hrReadings (store_reading idx (g_est env) s1)
           = (hrReadings s1)[idx := (if e_hrValid (g_est env) \<noteq> 0 \<and> 40 \<le> e_heartRate (g_est env)
                                        \<and> e_heartRate (g_est env) \<le> 220
                                     then of_int (e_heartRate (g_est env)) else 0)]
       \<and> validHRCount (store_reading idx (g_est env) s1)
           = validHRCount s1 + (if e_hrValid (g_est env) \<noteq> 0 \<and> 40 \<le> e_heartRate (g_est env)
                                   \<and> e_heartRate (g_est env) \<le> 220 then 1 else 0)
       \<and> spo2Readings (store_reading idx (g_est env) s1)
           = (spo2Readings s1)[idx := (if e_spo2Valid (g_est env) \<noteq> 0 \<and> 80 \<le> e_spo2 (g_est env)
                                          \<and> e_spo2 (g_est env) \<le> 100
                                       then of_int (e_spo2 (g_est env)) else 0)]
       \<and> validSpO2Count (store_reading idx (g_est env) s1)
           = validSpO2Count s1 + (if e_spo2Valid (g_est env) \<noteq> 0 \<and> 80 \<le> e_spo2 (g_est env)
                                     \<and> e_spo2 (g_est env) \<le> 100 then 1 else 0)"
proof -
  have "takeSingleReading idx env s = Inr (True, store_reading idx (g_est env) s1)"
    using assms by (simp add: takeSingleReading_def sampleCounts_def TOTAL_SAMPLES_def)
  moreover have "hrReadings (store_reading idx (g_est env) s1)
           = (hrReadings s1)[idx := (if e_hrValid (g_est env) \<noteq> 0 \<and> 40 \<le> e_heartRate (g_est env)
                                        \<and> e_heartRate (g_est env) \<le> 220
                                     then of_int (e_heartRate (g_est env)) else 0)]"
    by (auto simp add: store_reading_def Let_def)
  moreover have "validHRCount (store_reading idx (g_est env) s1)
           = validHRCount s1 + (if e_hrValid (g_est env) \<noteq> 0 \<and> 40 \<le> e_heartRate (g_est env)
                                   \<and> e_heartRate (g_est env) \<le> 220 then 1 else 0)"
    by (auto simp add: store_reading_def Let_def)
  moreover have "spo2Readings (store_reading idx (g_est env) s1)
           = (spo2Readings s1)[idx := (if e_spo2Valid (g_est env) \<noteq> 0 \<and> 80 \<le> e_spo2 (g_est env)
                                          \<and> e_spo2 (g_est env) \<le> 100
                                       then of_int (e_spo2 (g_est env)) else 0)]"
    by (auto simp add: store_reading_def Let_def)
  moreover have "validSpO2Count (store_reading idx (g_est env) s1)
           = validSpO2Count s1 + (if e_spo2Valid (g_est env) \<noteq> 0 \<and> 80 \<le> e_spo2 (g_est env)
                                     \<and> e_spo2 (g_est env) \<le> 100 then 1 else 0)"
    by (auto simp add: store_reading_def Let_def)
  ultimately show ?thesis by blast
qed

theorem stage_filter_witness:
  "(3::nat) < TOTAL_SAMPLES
   \<and> collect 0 (sampleCounts ! 3) (g_sample (mixed_stages 3)) begun
       = Inr (True, begun\<lparr> irBuffer := replicate 80 60000 @ replicate 10 0 \<rparr>)
   \<and> takeSingleReading 3 (mixed_stages 3) begun
       = Inr (True, begun\<lparr> irBuffer := replicate 80 60000 @ replicate 10 0,
                            spo2 := 70, spo2Valid := 1, heartRate := 75, hrValid := 1,
                            hrReadings := [0, 0, 0, 75, 0], validHRCount := 1 \<rparr>)"
proof -
  have a: "(3::nat) < TOTAL_SAMPLES" by (simp add: TOTAL_SAMPLES_def)
  have b: "collect 0 (sampleCounts ! 3) (g_sample (mixed_stages 3)) begun
             = Inr (True, begun\<lparr> irBuffer := replicate 80 60000 @ replicate 10 0 \<rparr>)"
    by code_simp
  have c: "store_reading 3 (g_est (mixed_stages 3)) (begun\<lparr> irBuffer := replicate 80 60000 @ replicate 10 0 \<rparr>)
             = begun\<lparr> irBuffer := replicate 80 60000 @ replicate 10 0,
                            spo2 := 70, spo2Valid := 1, heartRate := 75, hrValid := 1,
                            hrReadings := [0, 0, 0, 75, 0], validHRCount := 1 \<rparr>"
    by code_simp
  from stage_filter [OF a b] a b c show ?thesis by simp
qed

text \<open>
  Claim C8, as the sketch has it. Let the window loop of a stage have reached sample
  slot \<open>i\<close>. If, after the request pending there is served, \<open>cancelRequested\<close> is
  set or the finger is off the sensor, the stage returns false at once. Otherwise the
  sketch waits for the sample, and in whichever iteration of this wait
  \<open>cancelRequested\<close> is found set after serving the pending request, the stage
  returns false. The wait itself does not look at the finger.
\<close>

theorem sample_wait_escape:
  assumes "idx < TOTAL_SAMPLES" and "i < sampleCounts ! idx"
    and "collect 0 i (g_sample env) s = Inr (True, si)"
  shows "(cancelRequested (handleClient (m_req (g_sample env i)) si)
            \<or> \<not> fingerPresent (m_ir (g_sample env i)) \<longrightarrow>
          takeSingleReading idx env s = Inr (False, handleClient (m_req (g_sample env i)) si))
       \<and> (\<forall>ps p qs sw.
            \<not> cancelRequested (handleClient (m_req (g_sample env i)) si)
            \<and> fingerPresent (m_ir (g_sample env i))
            \<and> m_polls (g_sample env i) = ps @ p # qs
            \<and> await_sample ps True (handleClient (m_req (g_sample env i)) si) = Inr (True, sw)
            \<and> cancelRequested (handleClient (p_req p) sw) \<longrightarrow>
          takeSingleReading idx env s = Inr (False, handleClient (p_req p) sw))"
proof -
  let ?n = "sampleCounts ! idx"
  let ?s1 = "handleClient (m_req (g_sample env i)) si"
  have idx: "idx < length sampleCounts"
    using assms(1) by (simp add: sampleCounts_def TOTAL_SAMPLES_def)
  have c: "collect 0 ?n (g_sample env) s = collect i ?n (g_sample env) si"
    using collect_split [OF assms(3)] assms(2) by simp
  have stage: "\<And>u. collect i ?n (g_sample env) si = Inr (False, u) \<Longrightarrow>
                 takeSingleReading idx env s = Inr (False, u)"
    using idx c by (simp add: takeSingleReading_def)
  have first: "cancelRequested ?s1 \<or> \<not> fingerPresent (m_ir (g_sample env i)) \<Longrightarrow>
                 takeSingleReading idx env s = Inr (False, ?s1)"
    by (rule stage) (simp add: collect.simps [of i] assms(2) Let_def)
  have second: "takeSingleReading idx env s = Inr (False, handleClient (p_req p) sw)"
    if go: "\<not> cancelRequested ?s1" "fingerPresent (m_ir (g_sample env i))"
      and polls: "m_polls (g_sample env i) = ps @ p # qs"
      and pre: "await_sample ps True ?s1 = Inr (True, sw)"
      and hit: "cancelRequested (handleClient (p_req p) sw)"
    for ps p qs sw
  proof -
    have "await_sample (m_polls (g_sample env i)) (m_arrives (g_sample env i)) ?s1
            = Inr (False, handleClient (p_req p) sw)"
      using await_sample_split [OF pre] hit by (simp add: polls Let_def)
    then have "collect i ?n (g_sample env) si = Inr (False, handleClient (p_req p) sw)"
      using go assms(2) by (simp add: collect.simps [of i] Let_def)
    then show ?thesis by (rule stage)
  qed
  from first second show ?thesis by blast
qed

theorem sample_wait_escape_witness:
  "(0::nat) < TOTAL_SAMPLES \<and> 2 < sampleCounts ! 0
   \<and> collect 0 2 (g_sample cancelled_stage) begun
       = Inr (True, begun\<lparr> irBuffer := [60000, 60000] @ replicate 88 0 \<rparr>)
   \<and> fingerPresent (m_ir (g_sample cancelled_stage 2))
   \<and> m_polls (g_sample cancelled_stage 2)
       = [\<lparr> p_req = None, p_ir = 60000 \<rparr>] @ \<lparr> p_req = Some cancel_request, p_ir = 60000 \<rparr> # []
   \<and> takeSingleReading 0 cancelled_stage begun
       = Inr (False, begun\<lparr> irBuffer := [60000, 60000] @ replicate 88 0, cancelRequested := True \<rparr>)
   \<and> 49 < sampleCounts ! 0
   \<and> collect 0 49 (g_sample lifted_stage) begun
       = Inr (True, begun\<lparr> irBuffer := replicate 49 60000 @ replicate 41 0 \<rparr>)
   \<and> \<not> fingerPresent (m_ir (g_sample lifted_stage 49))
   \<and> takeSingleReading 0 lifted_stage begun
       = Inr (False, begun\<lparr> irBuffer := replicate 49 60000 @ replicate 41 0 \<rparr>)"
proof -
  let ?si = "begun\<lparr> irBuffer := [60000, 60000] @ replicate 88 0 \<rparr>"
  let ?sj = "begun\<lparr> irBuffer := replicate 49 60000 @ replicate 41 0 \<rparr>"
  have a: "(0::nat) < TOTAL_SAMPLES" by (simp add: TOTAL_SAMPLES_def)
  have b: "2 < sampleCounts ! 0" by (simp add: sampleCounts_def)
  have c: "collect 0 2 (g_sample cancelled_stage) begun = Inr (True, ?si)" by code_simp
  have d: "handleClient (m_req (g_sample cancelled_stage 2)) ?si = ?si" by code_simp
  have e: "\<not> cancelRequested ?si" by code_simp
  have f: "fingerPresent (m_ir (g_sample cancelled_stage 2))" by code_simp
  have g: "m_polls (g_sample cancelled_stage 2)
       = [\<lparr> p_req = None, p_ir = 60000 \<rparr>] @ \<lparr> p_req = Some cancel_request, p_ir = 60000 \<rparr> # []"
    by code_simp
  have h: "await_sample [\<lparr> p_req = None, p_ir = 60000 \<rparr>] True ?si = Inr (True, ?si)"
    by code_simp
  have i: "handleClient (p_req \<lparr> p_req = Some cancel_request, p_ir = 60000 \<rparr>) ?si
             = ?si\<lparr> cancelRequested := True \<rparr>"
    by code_simp
  have j: "cancelRequested (?si\<lparr> cancelRequested := True \<rparr>)" by simp
  from sample_wait_escape [OF a b c, THEN conjunct2, rule_format,
      of "[\<lparr> p_req = None, p_ir = 60000 \<rparr>]" "\<lparr> p_req = Some cancel_request, p_ir = 60000 \<rparr>" "[]" ?si]
    d e f g h i j
  have k: "takeSingleReading 0 cancelled_stage begun = Inr (False, ?si\<lparr> cancelRequested := True \<rparr>)"
    by simp
  have l: "49 < sampleCounts ! 0" by (simp add: sampleCounts_def)
  have m: "collect 0 49 (g_sample lifted_stage) begun = Inr (True, ?sj)" by code_simp
  have n: "\<not> fingerPresent (m_ir (g_sample lifted_stage 49))" by code_simp
  have o: "handleClient (m_req (g_sample lifted_stage 49)) ?sj = ?sj" by code_simp
  from sample_wait_escape [OF a l m, THEN conjunct1] n o
  have q: "takeSingleReading 0 lifted_stage begun = Inr (False, ?sj)" by simp
  from a b c f g k l m n q show ?thesis by simp
qed

text \<open>
  The claim as stated has every iteration of the wait end on finger loss too: in the
  first stage the finger is off during the iteration the last sample makes the sketch
  wait, no cancel is pending, and the stage returns true with both metrics stored.
\<close>

theorem finger_lost_in_wait_counterexample:
  "m_polls (g_sample slipping_stage 49) = [\<lparr> p_req = None, p_ir = 0 \<rparr>]
   \<and> \<not> fingerPresent 0
   \<and> takeSingleReading 0 slipping_stage begun
       = Inr (True, begun\<lparr> irBuffer := replicate 50 60000 @ replicate 40 0,
                            spo2 := 98, spo2Valid := 1, heartRate := 72, hrValid := 1,
                            hrReadings := [72, 0, 0, 0, 0], spo2Readings := [98, 0, 0, 0, 0],
                            validHRCount := 1, validSpO2Count := 1 \<rparr>)"
  by code_simp


subsection \<open>Averages\<close>

text \<open>
  Claim C4, as the sketch has it. Take any call of \<open>loop()\<close> after power-up in which
  all five stages complete, and the globals as control reaches the averaging step. The
  counters then hold the numbers of accepted heart-rate and saturation results of the
  run. After \<open>calculateAverages\<close> each average is the binary32 value nearest to the
  mean of the accepted results of its kind, as its float division leaves it: it differs
  from the mean by at most the mean divided by \<open>2 ^ 24\<close>, it is 0 when nothing was
  accepted, and it is 0 exactly when its counter is 0.
\<close>

theorem averages_after_full_run:
  assumes "reachable s" and "loop_measure env s = Inr (None, s3)"
  shows "validHRCount s3 = int (length (accepted_hrs (t_stage env)))
       \<and> validSpO2Count s3 = int (length (accepted_spo2s (t_stage env)))
       \<and> avgHR (calculateAverages s3)
           = (if accepted_hrs (t_stage env) = [] then 0 else fl32 (mean (accepted_hrs (t_stage env))))
       \<and> avgSpO2 (calculateAverages s3)
           = (if accepted_spo2s (t_stage env) = [] then 0
              else fl32 (mean (accepted_spo2s (t_stage env))))
       \<and> (accepted_hrs (t_stage env) \<noteq> [] \<longrightarrow>
            \<bar>avgHR (calculateAverages s3) - mean (accepted_hrs (t_stage env))\<bar>
              \<le> mean (accepted_hrs (t_stage env)) / 2 ^ 24)
       \<and> (accepted_spo2s (t_stage env) \<noteq> [] \<longrightarrow>
            \<bar>avgSpO2 (calculateAverages s3) - mean (accepted_spo2s (t_stage env))\<bar>
              \<le> mean (accepted_spo2s (t_stage env)) / 2 ^ 24)
       \<and> (avgHR (calculateAverages s3) = 0 \<longleftrightarrow> validHRCount s3 = 0)
       \<and> (avgSpO2 (calculateAverages s3) = 0 \<longleftrightarrow> validSpO2Count s3 = 0)"
proof -
  let ?env = "t_stage env"
  let ?hp = "\<lambda>j. hr_accepted (g_est (?env j))" and ?hv = "\<lambda>j. e_heartRate (g_est (?env j))"
  let ?sp = "\<lambda>j. spo2_accepted (g_est (?env j))" and ?sv = "\<lambda>j. e_spo2 (g_est (?env j))"
  let ?H = "accepted_hrs ?env" and ?S = "accepted_spo2s ?env"
  from loop_measure_full_run [OF assms] have d: "stages_done ?env TOTAL_SAMPLES s3" .
  have hc: "validHRCount s3 = int (length ?H)" and sc: "validSpO2Count s3 = int (length ?S)"
    using d by (simp_all add: stages_done_def accepted_hrs_def accepted_spo2s_def)
  have hl: "length ?H \<le> 5" and sl: "length ?S \<le> 5"
    using length_filter_le [of ?hp "[0..<TOTAL_SAMPLES]"] length_filter_le [of ?sp "[0..<TOTAL_SAMPLES]"]
    by (simp_all add: accepted_hrs_def accepted_spo2s_def TOTAL_SAMPLES_def)
  have hn: "fl32 (of_nat (length ?H)) = of_nat (length ?H)"
    using fl32_int [of "int (length ?H)"] hl by simp
  have sn: "fl32 (of_nat (length ?S)) = of_nat (length ?S)"
    using fl32_int [of "int (length ?S)"] sl by simp
  have hsum: "sum_positive (hrReadings s3) = sum_list ?H"
  proof -
    have "hrReadings s3 = map (\<lambda>j. if j < TOTAL_SAMPLES \<and> ?hp j then of_int (?hv j) else 0) [0..<TOTAL_SAMPLES]"
      using d by (simp add: stages_done_def)
    then show ?thesis
      using sum_positive_filtered [of ?hp ?hv]
      by (simp add: accepted_hrs_def hr_accepted_def)
  qed
  have ssum: "sum_positive (spo2Readings s3) = sum_list ?S"
  proof -
    have "spo2Readings s3 = map (\<lambda>j. if j < TOTAL_SAMPLES \<and> ?sp j then of_int (?sv j) else 0) [0..<TOTAL_SAMPLES]"
      using d by (simp add: stages_done_def)
    then show ?thesis
      using sum_positive_filtered [of ?sp ?sv]
      by (simp add: accepted_spo2s_def spo2_accepted_def)
  qed
  have ha: "avgHR (calculateAverages s3) = (if ?H = [] then 0 else fl32 (mean ?H))"
    using hc by (simp add: calculateAverages_def Let_def mean_def hsum hn)
  have sa: "avgSpO2 (calculateAverages s3) = (if ?S = [] then 0 else fl32 (mean ?S))"
    using sc by (simp add: calculateAverages_def Let_def mean_def ssum sn)
  have hm: "1 \<le> mean ?H" if "?H \<noteq> []"
  proof -
    have "40 \<le> mean ?H"
      by (rule mean_lower [OF that]) (auto simp add: accepted_hrs_def hr_accepted_def)
    then show ?thesis by simp
  qed
  have sm: "1 \<le> mean ?S" if "?S \<noteq> []"
  proof -
    have "80 \<le> mean ?S"
      by (rule mean_lower [OF that]) (auto simp add: accepted_spo2s_def spo2_accepted_def)
    then show ?thesis by simp
  qed
  have he: "?H \<noteq> [] \<longrightarrow> \<bar>avgHR (calculateAverages s3) - mean ?H\<bar> \<le> mean ?H / 2 ^ 24"
    using fl32_error [OF hm] by (simp add: ha)
  have se: "?S \<noteq> [] \<longrightarrow> \<bar>avgSpO2 (calculateAverages s3) - mean ?S\<bar> \<le> mean ?S / 2 ^ 24"
    using fl32_error [OF sm] by (simp add: sa)
  have hz: "avgHR (calculateAverages s3) = 0 \<longleftrightarrow> validHRCount s3 = 0"
    using fl32_positive [OF hm] by (auto simp add: ha hc)
  have sz: "avgSpO2 (calculateAverages s3) = 0 \<longleftrightarrow> validSpO2Count s3 = 0"
    using fl32_positive [OF sm] by (auto simp add: sa sc)
  from hc sc ha sa he se hz sz show ?thesis by blast
qed

theorem averages_after_full_run_witness:
  "reachable boot
   \<and> loop_measure (session_tick mixed_stages) boot
       = Inr (None, boot\<lparr> irBuffer := replicate 90 60000, spo2 := 99, heartRate := 300,
                          spo2Valid := 1, hrValid := 1, hrReadings := [72, 0, 74, 75, 0],
                          spo2Readings := [98, 0, 97, 0, 99], validHRCount := 3, validSpO2Count := 3,
                          running := True, hadFinger := True,
                          statusMsg := ''Sample 5 of 5'', patientName := ''Ann'' \<rparr>)
   \<and> accepted_hrs mixed_stages = [72, 74, 75]
   \<and> accepted_spo2s mixed_stages = [98, 97, 99]
   \<and> fl32 (221 / 3) = 9655637 / 131072
   \<and> avgHR (calculateAverages (boot\<lparr> irBuffer := replicate 90 60000, spo2 := 99, heartRate := 300,
                          spo2Valid := 1, hrValid := 1, hrReadings := [72, 0, 74, 75, 0],
                          spo2Readings := [98, 0, 97, 0, 99], validHRCount := 3, validSpO2Count := 3,
                          running := True, hadFinger := True,
                          statusMsg := ''Sample 5 of 5'', patientName := ''Ann'' \<rparr>)) = 9655637 / 131072
   \<and> avgSpO2 (calculateAverages (boot\<lparr> irBuffer := replicate 90 60000, spo2 := 99, heartRate := 300,
                          spo2Valid := 1, hrValid := 1, hrReadings := [72, 0, 74, 75, 0],
                          spo2Readings := [98, 0, 97, 0, 99], validHRCount := 3, validSpO2Count := 3,
                          running := True, hadFinger := True,
                          statusMsg := ''Sample 5 of 5'', patientName := ''Ann'' \<rparr>)) = 98"
proof -
  have a: "reachable boot" by (rule at_boot)
  have b: "loop_measure (session_tick mixed_stages) boot
       = Inr (None, boot\<lparr> irBuffer := replicate 90 60000, spo2 := 99, heartRate := 300,
                          spo2Valid := 1, hrValid := 1, hrReadings := [72, 0, 74, 75, 0],
                          spo2Readings := [98, 0, 97, 0, 99], validHRCount := 3, validSpO2Count := 3,
                          running := True, hadFinger := True,
                          statusMsg := ''Sample 5 of 5'', patientName := ''Ann'' \<rparr>)"
    by code_simp
  have c: "accepted_hrs mixed_stages = [72, 74, 75]" "accepted_spo2s mixed_stages = [98, 97, 99]"
    by code_simp+
  have d: "t_stage (session_tick mixed_stages) = mixed_stages" by (simp add: session_tick_def)
  have e: "fl32 (221 / 3) = 9655637 / 131072" "fl32 98 = 98" by code_simp+
  from averages_after_full_run [OF a b] a b c d e show ?thesis by (simp add: mean_def)
qed

text \<open>
  The claim as stated has the average equal to the mean: five accepted heart rates 72,
  73, 73, 72, 73 have the mean 363/5, which is no binary32 value, and the float division
  leaves 9515827/131072 in \<open>avgHR\<close>.
\<close>

theorem average_is_rounded_counterexample:
  "loop_measure (session_tick uneven_stages) boot
     = Inr (None, boot\<lparr> irBuffer := replicate 90 60000, spo2 := 98, heartRate := 73,
                          spo2Valid := 1, hrValid := 1, hrReadings := [72, 73, 73, 72, 73],
                          spo2Readings := [98, 98, 98, 98, 98], validHRCount := 5, validSpO2Count := 5,
                          running := True, hadFinger := True,
                          statusMsg := ''Sample 5 of 5'', patientName := ''Ann'' \<rparr>)
   \<and> accepted_hrs uneven_stages = [72, 73, 73, 72, 73]
   \<and> mean (accepted_hrs uneven_stages) = 363 / 5
   \<and> avgHR (calculateAverages (boot\<lparr> irBuffer := replicate 90 60000, spo2 := 98, heartRate := 73,
                          spo2Valid := 1, hrValid := 1, hrReadings := [72, 73, 73, 72, 73],
                          spo2Readings := [98, 98, 98, 98, 98], validHRCount := 5, validSpO2Count := 5,
                          running := True, hadFinger := True,
                          statusMsg := ''Sample 5 of 5'', patientName := ''Ann'' \<rparr>)) = 9515827 / 131072
   \<and> avgHR (calculateAverages (boot\<lparr> irBuffer := replicate 90 60000, spo2 := 98, heartRate := 73,
                          spo2Valid := 1, hrValid := 1, hrReadings := [72, 73, 73, 72, 73],
                          spo2Readings := [98, 98, 98, 98, 98], validHRCount := 5, validSpO2Count := 5,
                          running := True, hadFinger := True,
                          statusMsg := ''Sample 5 of 5'', patientName := ''Ann'' \<rparr>)) \<noteq> mean (accepted_hrs uneven_stages)"
  by code_simp

subsection \<open>Cancellation\<close>

text \<open>
  Where a set \<open>cancelRequested\<close> is acted on: at the top of \<open>loop()\<close>, and at the
  top of every stage, whose first sample slot tests it. Either way the session is reset:
  not running, flag cleared, counters 0, label empty. A request served while a session
  runs never clears the flag, so a cancel served in the greeting, in the countdown or in
  the pause after one of the first four stages is acted on by the stage that follows.
\<close>

lemma sampleCounts_positive: "i < TOTAL_SAMPLES \<Longrightarrow> 0 < sampleCounts ! i"
proof -
  assume "i < TOTAL_SAMPLES"
  then have "i = 0 \<or> i = 1 \<or> i = 2 \<or> i = 3 \<or> i = 4" by (auto simp add: TOTAL_SAMPLES_def)
  then show ?thesis by (auto simp add: sampleCounts_def)
qed

lemma pending_cancel_at_entry:
  "running (handleClient (t_req env) s) \<Longrightarrow> cancelRequested (handleClient (t_req env) s) \<Longrightarrow>
     loop env s = Inr (CancelledAtEntry, displayIdle (resetMeasurement (handleClient (t_req env) s)))"
  by (simp add: loop_def loop_measure_def)

lemma reset_clears:
  "\<not> running (displayIdle (resetMeasurement s))
   \<and> \<not> cancelRequested (displayIdle (resetMeasurement s))
   \<and> validHRCount (displayIdle (resetMeasurement s)) = 0
   \<and> validSpO2Count (displayIdle (resetMeasurement s)) = 0
   \<and> patientName (displayIdle (resetMeasurement s)) = []"
  by (simp add: displayIdle_def resetMeasurement_def)

lemma pending_cancel_aborts_stage:
  assumes "running s" and "cancelRequested s" and "i < TOTAL_SAMPLES"
  shows "\<exists>s1. sampling i env s = Inr (Some i, displayIdle (resetMeasurement s1))"
proof -
  let ?s2 = "handleClient (g_pre (env i)) (displaySampling (i + 1) TOTAL_SAMPLES s)"
  have r2: "running ?s2 \<and> cancelRequested ?s2"
    using handleClient_running [of "displaySampling (i + 1) TOTAL_SAMPLES s" "g_pre (env i)"] assms(1,2)
    by (auto simp add: displaySampling_def)
  let ?s3 = "handleClient (m_req (g_sample (env i) 0)) ?s2"
  have r3: "cancelRequested ?s3"
    using handleClient_running [of ?s2 "m_req (g_sample (env i) 0)"] r2 by auto
  have "collect 0 (sampleCounts ! i) (g_sample (env i)) ?s2 = Inr (False, ?s3)"
    using sampleCounts_positive [OF assms(3)] r3 by (simp add: collect.simps [of 0] Let_def)
  then have "takeSingleReading i (env i) ?s2 = Inr (False, ?s3)"
    using assms(3) by (simp add: takeSingleReading_def sampleCounts_def TOTAL_SAMPLES_def)
  then have "sampling i env s = Inr (Some i, displayIdle (resetMeasurement ?s3))"
    using assms(3) by (simp add: sampling_step)
  then show ?thesis by blast
qed

text \<open>
  Claim C5 at the input where the sketch departs from it. A session is begun, the finger
  is on the sensor, all five stages yield heart rate 72 and saturation 98, and a Cancel
  request is pending in the pause after the last stage, before the averaging step. No
  check follows that pause: the call of \<open>loop()\<close> completes the session with
  averages 72 and 98, the counters at 5, and \<open>cancelRequested\<close> still set.
\<close>

theorem late_cancel_completes:
  "loop (session_tick late_cancel_stages) boot
     = Inr (Completed,
            boot\<lparr> irBuffer := replicate 90 60000, spo2 := 98, heartRate := 72,
                  spo2Valid := 1, hrValid := 1, hrReadings := [72, 72, 72, 72, 72],
                  spo2Readings := [98, 98, 98, 98, 98], validHRCount := 5, validSpO2Count := 5,
                  avgHR := 72, avgSpO2 := 98, hadFinger := True, cancelRequested := True \<rparr>)"
  by code_simp

theorem late_cancel_completes_witness:
  "map_sum id fst (loop (session_tick late_cancel_stages) boot) = Inr Completed"
  using late_cancel_completes by simp

end
